theory Spec2Isabelle
  imports Main "HOL-Library.Sublist"
begin

section \<open>Python values: bytes, text, exceptions\<close>

text \<open>
  A Python \<open>bytes\<close> object is a list of 8-bit characters; a Python \<open>str\<close> is a list of
  Unicode code points (numbers below \<open>0x110000\<close>, lone surrogates included, as CPython
  allows them). \<open>ascii\<close> reads an ASCII literal of the source as a \<open>str\<close>.
\<close>

type_synonym bytes = "char list"
type_synonym str = "nat list"

definition ascii :: "string \<Rightarrow> str" where
  "ascii s = map of_char s"

datatype exn =
    ValueError string
  | KeyError string
  | TypeError string
  | UnicodeDecodeError
  | UnicodeEncodeError
  | ServiceError string

subsection \<open>The UTF-8 codec behind \<open>str.encode()\<close> and \<open>bytes.decode()\<close>\<close>

text \<open>
  \<open>bytes.decode()\<close> is the strict UTF-8 decoder: it accepts exactly the well-formed
  byte sequences (no overlong forms, no surrogates, nothing above \<open>U+10FFFF\<close>) and raises
  \<open>UnicodeDecodeError\<close> (here \<open>None\<close>) on anything else.
\<close>

definition is_cont :: "char \<Rightarrow> bool" where
  "is_cont c = (0x80 \<le> (of_char c :: nat) \<and> (of_char c :: nat) \<le> 0xBF)"

definition cont :: "char \<Rightarrow> nat" where
  "cont c = of_char c - 0x80"

fun utf8_decode :: "bytes \<Rightarrow> str option" where
  "utf8_decode [] = Some []"
| "utf8_decode (b0 # bs) =
     (let n0 = (of_char b0 :: nat) in
      if n0 < 0x80 then map_option ((#) n0) (utf8_decode bs)
      else if 0xC2 \<le> n0 \<and> n0 \<le> 0xDF then
        (case bs of
           b1 # r \<Rightarrow>
             if is_cont b1
             then map_option ((#) ((n0 - 0xC0) * 0x40 + cont b1)) (utf8_decode r)
             else None
         | _ \<Rightarrow> None)
      else if 0xE0 \<le> n0 \<and> n0 \<le> 0xEF then
        (case bs of
           b1 # b2 # r \<Rightarrow>
             if is_cont b1 \<and> is_cont b2
                \<and> (n0 = 0xE0 \<longrightarrow> 0xA0 \<le> (of_char b1 :: nat))
                \<and> (n0 = 0xED \<longrightarrow> (of_char b1 :: nat) \<le> 0x9F)
             then map_option ((#) ((n0 - 0xE0) * 0x1000 + cont b1 * 0x40 + cont b2))
                    (utf8_decode r)
             else None
         | _ \<Rightarrow> None)
      else if 0xF0 \<le> n0 \<and> n0 \<le> 0xF4 then
        (case bs of
           b1 # b2 # b3 # r \<Rightarrow>
             if is_cont b1 \<and> is_cont b2 \<and> is_cont b3
                \<and> (n0 = 0xF0 \<longrightarrow> 0x90 \<le> (of_char b1 :: nat))
                \<and> (n0 = 0xF4 \<longrightarrow> (of_char b1 :: nat) \<le> 0x8F)
             then map_option
                    ((#) ((n0 - 0xF0) * 0x40000 + cont b1 * 0x1000 + cont b2 * 0x40 + cont b3))
                    (utf8_decode r)
             else None
         | _ \<Rightarrow> None)
      else None)"

text \<open>
  \<open>str.encode()\<close> writes each code point in one to four bytes and raises
  \<open>UnicodeEncodeError\<close> (here \<open>None\<close>) on a surrogate code point
  (\<open>U+D800\<close> to \<open>U+DFFF\<close>). A Python \<open>str\<close> holds no number from \<open>0x110000\<close> on;
  the model gives \<open>None\<close> there too.
\<close>

definition byte :: "nat \<Rightarrow> char" where
  "byte n = char_of n"

definition encode_cp :: "nat \<Rightarrow> bytes option" where
  "encode_cp c =
     (if c < 0x80 then Some [byte c]
      else if c < 0x800 then Some [byte (0xC0 + c div 0x40), byte (0x80 + c mod 0x40)]
      else if 0xD800 \<le> c \<and> c \<le> 0xDFFF then None
      else if c < 0x10000 then
        Some [byte (0xE0 + c div 0x1000), byte (0x80 + c div 0x40 mod 0x40),
              byte (0x80 + c mod 0x40)]
      else if c < 0x110000 then
        Some [byte (0xF0 + c div 0x40000), byte (0x80 + c div 0x1000 mod 0x40),
              byte (0x80 + c div 0x40 mod 0x40), byte (0x80 + c mod 0x40)]
      else None)"

fun utf8_encode :: "str \<Rightarrow> bytes option" where
  "utf8_encode [] = Some []"
| "utf8_encode (c # cs) =
     (case encode_cp c of
        None \<Rightarrow> None
      | Some bs \<Rightarrow> map_option ((@) bs) (utf8_encode cs))"

section \<open>Library operations the decoder calls\<close>

text \<open>\<open>strip_prefix p s\<close>: what follows \<open>p\<close> when \<open>s\<close> starts with \<open>p\<close>.\<close>

fun strip_prefix :: "'a list \<Rightarrow> 'a list \<Rightarrow> 'a list option" where
  "strip_prefix [] s = Some s"
| "strip_prefix (p # ps) [] = None"
| "strip_prefix (p # ps) (c # cs) = (if p = c then strip_prefix ps cs else None)"

text \<open>
  \<open>s.split(sep, 1)\<close> cuts \<open>s\<close> at the leftmost occurrence of \<open>sep\<close>; \<open>split_once\<close>
  returns the two pieces, or \<open>None\<close> when \<open>sep\<close> does not occur (Python then returns the
  one-element list \<open>[s]\<close>).
\<close>

fun split_once :: "'a list \<Rightarrow> 'a list \<Rightarrow> ('a list \<times> 'a list) option" where
  "split_once sep [] =
     (case strip_prefix sep [] of
        Some r \<Rightarrow> Some ([], r)
      | None \<Rightarrow> None)"
| "split_once sep (b # bs) =
     (case strip_prefix sep (b # bs) of
        Some r \<Rightarrow> Some ([], r)
      | None \<Rightarrow> map_option (\<lambda>(h, t). (b # h, t)) (split_once sep bs))"

lemma strip_prefix_Some: "strip_prefix p s = Some r \<longleftrightarrow> s = p @ r"
  by (induction p s rule: strip_prefix.induct) auto

lemma split_once_length:
  "split_once sep s = Some (h, t) \<Longrightarrow> length s = length h + length sep + length t"
proof (induction s arbitrary: h)
  case Nil
  then show ?case
    by (auto simp: strip_prefix_Some split: option.splits)
next
  case (Cons b bs)
  show ?case
  proof (cases "strip_prefix sep (b # bs)")
    case (Some r)
    with Cons.prems show ?thesis
      by (auto simp: strip_prefix_Some)
  next
    case None
    with Cons.prems obtain h' where "split_once sep bs = Some (h', t)" and "h = b # h'"
      by auto
    with Cons.IH [of h'] show ?thesis
      by simp
  qed
qed

text \<open>
  \<open>s.split(sep)\<close>: all the pieces between the non-overlapping occurrences of \<open>sep\<close>,
  found from the left. Python raises \<open>ValueError\<close> on an empty separator.
\<close>

function split_all :: "'a list \<Rightarrow> 'a list \<Rightarrow> 'a list list" where
  "split_all sep s =
     (if sep = [] then [s]
      else (case split_once sep s of
              None \<Rightarrow> [s]
            | Some (h, t) \<Rightarrow> h # split_all sep t))"
  by pat_completeness auto
termination
proof (relation "measure (\<lambda>(sep, s). length s)")
  show "wf (measure (\<lambda>(sep :: 'a list, s :: 'a list). length s))"
    by simp
next
  fix sep s :: "'a list" and x2 h t
  assume "sep \<noteq> []" and "split_once sep s = Some x2" and "(h, t) = x2"
  then have "length s = length h + length sep + length t"
    using split_once_length [of sep s h t] by simp
  with \<open>sep \<noteq> []\<close> show "((sep, t), (sep, s)) \<in> measure (\<lambda>(sep, s). length s)"
    by (cases sep) auto
qed

definition bytes_split :: "bytes \<Rightarrow> bytes \<Rightarrow> exn + bytes list" where
  "bytes_split sep s =
     (if sep = [] then Inl (ValueError ''empty separator'') else Inr (split_all sep s))"

text \<open>\<open>b.rstrip(b"\r\n")\<close> removes every trailing byte that is CR or LF.\<close>

definition CR :: char where "CR = CHR 0x0D"
definition LF :: char where "LF = CHR 0x0A"

definition rstrip_crlf :: "bytes \<Rightarrow> bytes" where
  "rstrip_crlf b = rev (dropWhile (\<lambda>c. c = CR \<or> c = LF) (rev b))"

declare split_all.simps [simp del]

section \<open>The two regular expressions\<close>

text \<open>
  \<open>re.search(p, s)\<close> tries the pattern at every start position of \<open>s\<close> from the left
  (the empty rest included) and returns the first match. \<open>re_search m\<close> does so for a
  matcher \<open>m\<close> that says what the pattern matches at the start of a string.
\<close>

fun re_search :: "(str \<Rightarrow> 'a option) \<Rightarrow> str \<Rightarrow> 'a option" where
  "re_search m [] = m []"
| "re_search m (c # cs) =
     (case m (c # cs) of
        Some r \<Rightarrow> Some r
      | None \<Rightarrow> re_search m cs)"

text \<open>
  The pattern \<open>boundary=([^;]+)\<close> at the start of \<open>s\<close>: the literal, then the longest
  run of characters other than \<open>;\<close> (code point 59), which must not be empty. The result
  is group 1.
\<close>

definition boundary_match_at :: "str \<Rightarrow> str option" where
  "boundary_match_at s =
     (case strip_prefix (ascii ''boundary='') s of
        None \<Rightarrow> None
      | Some r \<Rightarrow>
          (let token = takeWhile (\<lambda>c. c \<noteq> 59) r
           in if token = [] then None else Some token))"

text \<open>
  \<open>[^"]+"\<close> at the start of \<open>s\<close>: the longest run of characters other than the double
  quote (code point 34), not empty, and followed by a double quote. A shorter run is
  followed by a character of the run, never by the quote, so backtracking finds nothing
  else. The result is the run and what follows the closing quote.
\<close>

definition quoted_run :: "str \<Rightarrow> (str \<times> str) option" where
  "quoted_run s =
     (let run = takeWhile (\<lambda>c. c \<noteq> 34) s
      in if run = [] then None
         else (case dropWhile (\<lambda>c. c \<noteq> 34) s of
                 [] \<Rightarrow> None
               | q # r \<Rightarrow> Some (run, r)))"

definition name_literal :: str where
  "name_literal = ascii ''Content-Disposition: form-data; name=\"''"

definition filename_literal :: str where
  "filename_literal = ascii ''; filename=\"''"

text \<open>
  The optional group \<open>(?:; filename="([^"]+)")?\<close> at the start of \<open>r\<close>: group 2 when
  the group matches, \<open>None\<close> when it does not (the pattern then matches without it).
\<close>

definition filename_group :: "str \<Rightarrow> str option" where
  "filename_group r =
     (case strip_prefix filename_literal r of
        None \<Rightarrow> None
      | Some r' \<Rightarrow> map_option fst (quoted_run r'))"

text \<open>
  The pattern \<open>Content-Disposition: form-data; name="([^"]+)"(?:; filename="([^"]+)")?\<close>
  at the start of \<open>s\<close>. The result is group 1 and group 2.
\<close>

definition disposition_match_at :: "str \<Rightarrow> (str \<times> str option) option" where
  "disposition_match_at s =
     (case strip_prefix name_literal s of
        None \<Rightarrow> None
      | Some r \<Rightarrow>
          (case quoted_run r of
             None \<Rightarrow> None
           | Some (name, r') \<Rightarrow> Some (name, filename_group r')))"

section \<open>The multipart decoder (UploadFunction.py)\<close>

text \<open>
  A decoded field is a plain string or the dictionary
  \<open>{'filename': ..., 'content': ...}\<close>.
\<close>

datatype field = Text str | FileField (filename: str) (content: bytes)

text \<open>
  What one pass of the loop body does with a part: \<open>Skipped\<close> is the \<open>continue\<close> after
  a failed header match, \<open>Failed e\<close> is the \<open>except\<close> branch (the exception is printed),
  \<open>Stored name v\<close> is the assignment \<open>fields[name] = v\<close>.
\<close>

datatype part_result = Skipped | Failed exn | Stored str field

fun stores :: "part_result \<Rightarrow> bool" where
  "stores (Stored name v) = True"
| "stores Skipped = False"
| "stores (Failed e) = False"

definition blank_line :: bytes where
  "blank_line = [CR, LF, CR, LF]"

definition text_field :: "str \<Rightarrow> bytes \<Rightarrow> part_result" where
  "text_field name part_body =
     (case utf8_decode (rstrip_crlf part_body) of
        None \<Rightarrow> Failed UnicodeDecodeError
      | Some v \<Rightarrow> Stored name (Text v))"

definition parse_part :: "bytes \<Rightarrow> part_result" where
  "parse_part part =
     (case split_once blank_line part of
        None \<Rightarrow> Failed (ValueError ''not enough values to unpack (expected 2, got 1)'')
      | Some (part_headers, part_body) \<Rightarrow>
          (case utf8_decode part_headers of
             None \<Rightarrow> Failed UnicodeDecodeError
           | Some headers \<Rightarrow>
               (case re_search disposition_match_at headers of
                  None \<Rightarrow> Skipped
                | Some (name, None) \<Rightarrow> text_field name part_body
                | Some (name, Some fname) \<Rightarrow>
                    if fname \<noteq> []
                    then Stored name (FileField fname (rstrip_crlf part_body))
                    else text_field name part_body)))"

text \<open>
  The state of the loop: the dictionary \<open>fields\<close> and the exceptions printed so far.
\<close>

type_synonym fields = "str \<rightharpoonup> field"

definition parse_step :: "fields \<times> exn list \<Rightarrow> bytes \<Rightarrow> fields \<times> exn list" where
  "parse_step st part =
     (case parse_part part of
        Skipped \<Rightarrow> st
      | Failed e \<Rightarrow> (fst st, snd st @ [e])
      | Stored name v \<Rightarrow> ((fst st)(name \<mapsto> v), snd st))"

text \<open>\<open>parts[1:-1]\<close>: all but the first and the last element; empty for fewer than three.\<close>

definition inner_parts :: "'a list \<Rightarrow> 'a list" where
  "inner_parts parts = butlast (tl parts)"

definition parse_multipart_form_data :: "bytes \<Rightarrow> str \<Rightarrow> exn + (fields \<times> exn list)" where
  "parse_multipart_form_data body content_type =
     (case re_search boundary_match_at content_type of
        None \<Rightarrow> Inl (ValueError ''Invalid Content-Type header: missing boundary'')
      | Some boundary \<Rightarrow>
          (case utf8_encode boundary of
             None \<Rightarrow> Inl UnicodeEncodeError
           | Some b \<Rightarrow>
               (case bytes_split (''--'' @ b) body of
                  Inl e \<Rightarrow> Inl e
                | Inr parts \<Rightarrow> Inr (foldl parse_step (Map.empty, []) (inner_parts parts)))))"

section \<open>The request handlers\<close>

datatype reply = ErrorReply exn | UploadedReply str | SavedReply str | NoAudioReply

record response =
  statusCode :: nat
  reply :: reply

subsection \<open>The upload handler (UploadFunction.py)\<close>

text \<open>
  The event carries \<open>body\<close> and \<open>headers\<close>; \<open>None\<close> stands for a missing key. The
  handler is given \<open>str.lower\<close> and, as \<open>store\<close>, everything after the validation:
  the key generation, the S3 put and the metadata write, which return the key of the
  stored object or raise.
\<close>

record upload_event =
  ev_body :: "str option"
  ev_headers :: "(str \<times> str) list option"

definition lowered :: "(str \<Rightarrow> str) \<Rightarrow> (str \<times> str) list \<Rightarrow> (str \<rightharpoonup> str)" where
  "lowered lower hs = foldl (\<lambda>d (k, v). d(lower k \<mapsto> v)) Map.empty hs"

definition upload_try ::
  "(str \<Rightarrow> str) \<Rightarrow> (bytes \<Rightarrow> str \<Rightarrow> exn + str) \<Rightarrow> upload_event \<Rightarrow> exn + str" where
  "upload_try lower store event =
     (case ev_body event of
        None \<Rightarrow> Inl (KeyError ''body'')
      | Some b \<Rightarrow>
     (case utf8_encode b of
        None \<Rightarrow> Inl UnicodeEncodeError
      | Some body \<Rightarrow>
     (case ev_headers event of
        None \<Rightarrow> Inl (KeyError ''headers'')
      | Some hs \<Rightarrow>
     (case lowered lower hs (ascii ''content-type'') of
        None \<Rightarrow> Inl (ValueError ''Missing 'Content-Type' header.'')
      | Some content_type \<Rightarrow>
          if content_type = [] then Inl (ValueError ''Missing 'Content-Type' header.'')
          else
     (case parse_multipart_form_data body content_type of
        Inl e \<Rightarrow> Inl e
      | Inr (flds, printed) \<Rightarrow>
     (case flds (ascii ''file'') of
        None \<Rightarrow> Inl (ValueError ''Missing file in the request.'')
      | Some (Text v) \<Rightarrow> Inl (TypeError ''string indices must be integers'')
      | Some (FileField file_name file_content) \<Rightarrow>
          if file_content = [] then Inl (ValueError ''File content is empty.'')
          else store file_content file_name))))))"

definition upload_lambda_handler ::
  "(str \<Rightarrow> str) \<Rightarrow> (bytes \<Rightarrow> str \<Rightarrow> exn + str) \<Rightarrow> upload_event \<Rightarrow> response" where
  "upload_lambda_handler lower store event =
     (case upload_try lower store event of
        Inl e \<Rightarrow> \<lparr>statusCode = 500, reply = ErrorReply e\<rparr>
      | Inr key \<Rightarrow> \<lparr>statusCode = 200, reply = UploadedReply key\<rparr>)"

subsection \<open>The speech handler (PollyFunction.py)\<close>

text \<open>
  The event carries \<open>translated_text\<close>, \<open>bucket\<close> and \<open>output_file\<close>; \<open>None\<close> stands
  for a missing key. The handler is given the generated default name, the Polly call
  (the audio stream, \<open>None\<close> when the response has none, or an exception) and the S3 put.
\<close>

record speech_event =
  translated_text :: "str option"
  bucket :: "str option"
  output_file :: "str option"

definition polly_try ::
  "str \<Rightarrow> (str \<Rightarrow> exn + bytes option) \<Rightarrow> (str \<Rightarrow> bytes \<Rightarrow> exn + unit) \<Rightarrow> speech_event
     \<Rightarrow> exn + str option" where
  "polly_try default_name synthesize_speech put_object event =
     (case translated_text event of
        None \<Rightarrow> Inl (KeyError ''translated_text'')
      | Some text \<Rightarrow>
     (case bucket event of
        None \<Rightarrow> Inl (KeyError ''bucket'')
      | Some input_bucket_name \<Rightarrow>
     (case output_file event of
        None \<Rightarrow> Inl (KeyError ''output_file'')
      | Some f \<Rightarrow>
          (let output_file_name = (if f \<noteq> [] then f else default_name)
           in (case synthesize_speech text of
                 Inl e \<Rightarrow> Inl e
               | Inr None \<Rightarrow> Inr None
               | Inr (Some audio) \<Rightarrow>
                   (case put_object output_file_name audio of
                      Inl e \<Rightarrow> Inl e
                    | Inr u \<Rightarrow> Inr (Some output_file_name)))))))"

definition polly_lambda_handler ::
  "str \<Rightarrow> (str \<Rightarrow> exn + bytes option) \<Rightarrow> (str \<Rightarrow> bytes \<Rightarrow> exn + unit) \<Rightarrow> speech_event
     \<Rightarrow> response" where
  "polly_lambda_handler default_name synthesize_speech put_object event =
     (case polly_try default_name synthesize_speech put_object event of
        Inr None \<Rightarrow> \<lparr>statusCode = 500, reply = NoAudioReply\<rparr>
      | Inr (Some name) \<Rightarrow> \<lparr>statusCode = 200, reply = SavedReply name\<rparr>
      | Inl (KeyError k) \<Rightarrow> \<lparr>statusCode = 400, reply = ErrorReply (KeyError k)\<rparr>
      | Inl e \<Rightarrow> \<lparr>statusCode = 500, reply = ErrorReply e\<rparr>)"

section \<open>Multipart bodies\<close>

text \<open>
  The body the specification describes: a preamble, then each part behind the delimiter
  \<open>--boundary\<close>, then the delimiter once more and the closing text (\<open>--\<close> and what
  follows). \<open>clean d p\<close> says that no occurrence of the delimiter \<open>d\<close> starts inside
  \<open>p\<close>.
\<close>

definition clean :: "'a list \<Rightarrow> 'a list \<Rightarrow> bool" where
  "clean d p = (split_once d (p @ butlast d) = None)"

definition multipart_body :: "bytes \<Rightarrow> bytes \<Rightarrow> bytes list \<Rightarrow> bytes \<Rightarrow> bytes" where
  "multipart_body d preamble parts closing =
     preamble @ concat (map (\<lambda>p. d @ p) parts) @ d @ closing"

text \<open>
  The name the header match of a part gives: \<open>None\<close> when the part has no blank
  line, its headers do not decode or the pattern is not found.
\<close>

definition part_name :: "bytes \<Rightarrow> str option" where
  "part_name part =
     (case split_once blank_line part of
        None \<Rightarrow> None
      | Some (part_headers, part_body) \<Rightarrow>
          (case utf8_decode part_headers of
             None \<Rightarrow> None
           | Some headers \<Rightarrow> map_option fst (re_search disposition_match_at headers)))"

text \<open>
  A well-formed part with the name \<open>n\<close> and the value \<open>v\<close>: a header block with no
  blank line in it, the blank line, and the part body. The header block decodes, and the
  first place in it where the pattern can match is an entry
  \<open>Content-Disposition: form-data; name="n"\<close> with a non-empty name. Either
  \<open>; filename="x"\<close> with a non-empty \<open>x\<close> follows the name, and \<open>v\<close> is the file value
  of \<open>x\<close> and what \<open>rstrip\<close> leaves of the part body; or no filename attribute follows,
  what \<open>rstrip\<close> leaves of the part body is valid UTF-8, and \<open>v\<close> is its decoding. The
  predicate reads the bytes of the part only; it does not run the decoder.
\<close>

definition well_formed_part :: "bytes \<Rightarrow> str \<Rightarrow> field \<Rightarrow> bool" where
  "well_formed_part part n v =
     (\<exists>hdr pre rest part_body.
        part = hdr @ blank_line @ part_body
        \<and> clean blank_line hdr
        \<and> utf8_decode hdr = Some (pre @ name_literal @ n @ 34 # rest)
        \<and> clean name_literal pre \<and> n \<noteq> [] \<and> 34 \<notin> set n
        \<and> ((\<exists>x post. rest = filename_literal @ x @ 34 # post \<and> x \<noteq> [] \<and> 34 \<notin> set x
                      \<and> v = FileField x (rstrip_crlf part_body))
           \<or> (\<not> prefix filename_literal rest
               \<and> (\<exists>s. utf8_decode (rstrip_crlf part_body) = Some s \<and> v = Text s))))"

text \<open>A decoded value that does not end in the two characters CR LF.\<close>

definition clean_value :: "field \<Rightarrow> bool" where
  "clean_value v =
     (case v of
        FileField f c \<Rightarrow> \<not> suffix [CR, LF] c
      | Text s \<Rightarrow> \<not> suffix [13, 10] s)"

subsection \<open>Example parts\<close>

text \<open>
  A content type with the boundary \<open>B\<close>, and parts and header blocks of a body for
  it, for the worked instances of the theorems.
\<close>

definition crlf :: bytes where
  "crlf = [CR, LF]"

definition example_type :: str where
  "example_type = ascii ''multipart/form-data; boundary=B''"

definition example_file_part :: bytes where
  "example_file_part =
     crlf @ ''Content-Disposition: form-data; name=\"file\"; filename=\"a.mp3\"''
       @ blank_line @ ''xyz'' @ crlf"

definition example_note_part :: bytes where
  "example_note_part =
     crlf @ ''Content-Disposition: form-data; name=\"note\"'' @ blank_line @ ''hi'' @ crlf"

definition example_second_note :: bytes where
  "example_second_note =
     crlf @ ''Content-Disposition: form-data; name=\"note\"'' @ blank_line @ ''yo'' @ crlf"

definition example_broken_part :: bytes where
  "example_broken_part =
     crlf @ ''Content-Disposition: form-data; name=\"lost\"'' @ crlf @ ''no blank line'' @ crlf"


definition example_header :: bytes where
  "example_header = crlf @ ''Content-Disposition: form-data; name=\"file\"; filename=\"a.mp3\"''"

definition example_note_header :: bytes where
  "example_note_header = crlf @ ''Content-Disposition: form-data; name=\"note\"''"

definition example_empty_name_header :: bytes where
  "example_empty_name_header = crlf @ ''Content-Disposition: form-data; name=\"\"''"

definition example_empty_filename_header :: bytes where
  "example_empty_filename_header =
     crlf @ ''Content-Disposition: form-data; name=\"file\"; filename=\"\"''
       @ crlf @ ''Content-Type: application/octet-stream''"

definition example_two_names_header :: bytes where
  "example_two_names_header =
     crlf @ ''Content-Disposition: form-data; name=\"\"''
       @ crlf @ ''Content-Disposition: form-data; name=\"z\"''"

text \<open>
  For the examples: \<open>str.lower\<close> as it acts on a string of ASCII characters, and an
  upload event whose content type names no boundary.
\<close>

definition ascii_lower :: "str \<Rightarrow> str" where
  "ascii_lower s = map (\<lambda>c. if 65 \<le> c \<and> c \<le> 90 then c + 32 else c) s"

definition example_upload_event :: upload_event where
  "example_upload_event =
     \<lparr>ev_body = Some (ascii ''--B--''),
      ev_headers = Some [(ascii ''Content-Type'', ascii ''multipart/form-data'')]\<rparr>"

definition example_speech_event :: speech_event where
  "example_speech_event =
     \<lparr>translated_text = Some (ascii ''hola''), bucket = None, output_file = Some []\<rparr>"

section \<open>Facts about splitting\<close>


lemma strip_prefix_append: "strip_prefix p (p @ r) = Some r"
  by (simp add: strip_prefix_Some)

lemma strip_prefix_None: "strip_prefix p s = None \<longleftrightarrow> \<not> prefix p s"
proof -
  have "(\<exists>r. strip_prefix p s = Some r) \<longleftrightarrow> prefix p s"
    by (auto simp: strip_prefix_Some prefix_def)
  then show ?thesis
    by (cases "strip_prefix p s") auto
qed

lemma split_once_None_Cons:
  "split_once sep (b # bs) = None \<longleftrightarrow> strip_prefix sep (b # bs) = None \<and> split_once sep bs = None"
  by (auto split: option.splits)

lemma split_once_prefix: "split_once sep (sep @ r) = Some ([], r)"
proof (cases "sep @ r")
  case Nil
  then show ?thesis by simp
next
  case (Cons a list)
  have "strip_prefix sep (a # list) = Some r"
    using strip_prefix_append [of sep r] Cons by simp
  with Cons show ?thesis by simp
qed

lemma prefix_shorter:
  assumes "prefix sep (xs @ sep @ r)" and "sep \<noteq> []" and "xs \<noteq> []"
  shows "prefix sep (xs @ butlast sep)"
proof -
  have "xs @ sep @ r = (xs @ butlast sep) @ ([last sep] @ r)"
    using \<open>sep \<noteq> []\<close> by simp
  then have "prefix (xs @ butlast sep) (xs @ sep @ r)"
    by (metis prefixI)
  moreover have "length sep \<le> length (xs @ butlast sep)"
    using \<open>xs \<noteq> []\<close> \<open>sep \<noteq> []\<close> by (cases xs) auto
  ultimately show ?thesis
    using assms(1) prefix_length_prefix by blast
qed

lemma split_once_first:
  assumes "sep \<noteq> []" and "split_once sep (p @ butlast sep) = None"
  shows "split_once sep (p @ sep @ r) = Some (p, r)"
  using assms(2)
proof (induction p)
  case Nil
  then show ?case
    by (simp add: split_once_prefix)
next
  case (Cons a p)
  from Cons.prems have no: "\<not> prefix sep ((a # p) @ butlast sep)"
    and rest: "split_once sep (p @ butlast sep) = None"
    by (auto simp: strip_prefix_None [symmetric] split: option.splits)
  have "\<not> prefix sep ((a # p) @ sep @ r)"
    using no prefix_shorter [OF _ \<open>sep \<noteq> []\<close>, of "a # p" r] by blast
  then have "strip_prefix sep (a # p @ sep @ r) = None"
    by (simp add: strip_prefix_None)
  with Cons.IH [OF rest] show ?case
    by simp
qed

text \<open>\<open>split_once\<close> finds \<open>sep\<close> exactly when it occurs: it is Python's \<open>sep in s\<close>.\<close>

lemma split_once_Some:
  "split_once sep s = Some (h, t) \<Longrightarrow> s = h @ sep @ t"
proof (induction s arbitrary: h)
  case Nil
  then show ?case
    by (auto simp: strip_prefix_Some split: option.splits)
next
  case (Cons b bs)
  show ?case
  proof (cases "strip_prefix sep (b # bs)")
    case (Some r)
    with Cons.prems show ?thesis
      by (auto simp: strip_prefix_Some)
  next
    case None
    with Cons.prems obtain h' where "split_once sep bs = Some (h', t)" and "h = b # h'"
      by auto
    with Cons.IH [of h'] show ?thesis
      by simp
  qed
qed

lemma split_once_occurs: "split_once sep (p @ sep @ r) \<noteq> None"
proof (induction p)
  case Nil
  then show ?case
    by (simp add: split_once_prefix)
next
  case (Cons a p)
  then show ?case
    by (cases "strip_prefix sep (a # p @ sep @ r)") auto
qed

lemma split_once_None_iff:
  "split_once sep s = None \<longleftrightarrow> (\<forall>p r. s \<noteq> p @ sep @ r)"
proof
  assume "split_once sep s = None"
  then show "\<forall>p r. s \<noteq> p @ sep @ r"
    using split_once_occurs [of sep] by metis
next
  assume "\<forall>p r. s \<noteq> p @ sep @ r"
  then show "split_once sep s = None"
    using split_once_Some [of sep s] by (cases "split_once sep s") auto
qed

lemma split_all_None: "split_once sep s = None \<Longrightarrow> split_all sep s = [s]"
  by (simp add: split_all.simps)

lemma split_all_first:
  assumes "sep \<noteq> []" and "split_once sep (p @ butlast sep) = None"
  shows "split_all sep (p @ sep @ r) = p # split_all sep r"
  using split_once_first [OF assms, of r] assms(1)
  by (subst split_all.simps) simp

lemma split_all_parts:
  assumes "d \<noteq> []" and "list_all (clean d) parts" and "clean d p0" and "split_once d closing = None"
  shows "split_all d (p0 @ concat (map (\<lambda>p. d @ p) parts) @ d @ closing) = p0 # parts @ [closing]"
  using assms(2,3)
proof (induction parts arbitrary: p0)
  case Nil
  then show ?case
    using split_all_first [OF assms(1), of p0 closing] split_all_None [OF assms(4)]
    by (simp add: clean_def)
next
  case (Cons p ps)
  from Cons.prems have "clean d p" and "list_all (clean d) ps"
    by simp_all
  from Cons.IH [OF this(2,1)]
  have "split_all d (p @ concat (map ((@) d) ps) @ d @ closing) = p # ps @ [closing]" .
  moreover have "split_all d (p0 @ d @ (p @ concat (map ((@) d) ps) @ d @ closing))
      = p0 # split_all d (p @ concat (map ((@) d) ps) @ d @ closing)"
    using split_all_first [OF assms(1)] Cons.prems(2) by (simp add: clean_def)
  ultimately show ?case
    by simp
qed

lemma inner_parts_framed: "inner_parts (p0 # parts @ [closing]) = parts"
  by (simp add: inner_parts_def butlast_append)


lemma boundary_match_needs_literal:
  "strip_prefix (ascii ''boundary='') s = None \<Longrightarrow> boundary_match_at s = None"
  by (simp add: boundary_match_at_def)

lemma re_search_boundary_None:
  "split_once (ascii ''boundary='') s = None \<Longrightarrow> re_search boundary_match_at s = None"
proof (induction s)
  case Nil
  then show ?case
    by (simp add: boundary_match_at_def ascii_def)
next
  case (Cons c cs)
  then have "strip_prefix (ascii ''boundary='') (c # cs) = None"
    and "split_once (ascii ''boundary='') cs = None"
    by (auto split: option.splits)
  with Cons.IH show ?case
    by (simp add: boundary_match_needs_literal)
qed

section \<open>Facts about the regular expressions\<close>

lemma takeWhile_run: "q \<notin> set n \<Longrightarrow> takeWhile (\<lambda>c. c \<noteq> q) (n @ q # rest) = n"
  by (induction n) auto

lemma dropWhile_run: "q \<notin> set n \<Longrightarrow> dropWhile (\<lambda>c. c \<noteq> q) (n @ q # rest) = q # rest"
  by (induction n) auto

lemma quoted_run_closed:
  "n \<noteq> [] \<Longrightarrow> 34 \<notin> set n \<Longrightarrow> quoted_run (n @ 34 # rest) = Some (n, rest)"
  by (simp add: quoted_run_def takeWhile_run dropWhile_run)

lemma quoted_run_empty: "quoted_run (34 # rest) = None"
  by (simp add: quoted_run_def)

lemma disposition_match_named:
  assumes "n \<noteq> []" and "34 \<notin> set n"
  shows "disposition_match_at (name_literal @ n @ 34 # rest) = Some (n, filename_group rest)"
  using assms by (simp add: disposition_match_at_def strip_prefix_append quoted_run_closed)

lemma disposition_match_empty_name:
  "disposition_match_at (name_literal @ 34 # rest) = None"
  by (simp add: disposition_match_at_def strip_prefix_append quoted_run_empty)

lemma filename_group_named:
  "x \<noteq> [] \<Longrightarrow> 34 \<notin> set x \<Longrightarrow> filename_group (filename_literal @ x @ 34 # post) = Some x"
  by (simp add: filename_group_def strip_prefix_append quoted_run_closed)

lemma filename_group_empty: "filename_group (filename_literal @ 34 # post) = None"
  by (simp add: filename_group_def strip_prefix_append quoted_run_empty)

lemma filename_group_absent: "\<not> prefix filename_literal r \<Longrightarrow> filename_group r = None"
  by (simp add: filename_group_def strip_prefix_None [symmetric])

lemma name_literal_head: "\<exists>t. name_literal = 67 # t \<and> 67 \<notin> set t"
  by (simp add: name_literal_def ascii_def)

lemma disposition_match_needs_C: "c \<noteq> 67 \<Longrightarrow> disposition_match_at (c # s) = None"
proof -
  assume "c \<noteq> 67"
  obtain t where t: "name_literal = 67 # t"
    using name_literal_head by blast
  from \<open>c \<noteq> 67\<close> have "strip_prefix name_literal (c # s) = None"
    by (auto simp: t)
  then show ?thesis
    by (simp add: disposition_match_at_def)
qed

lemma re_search_skip:
  "67 \<notin> set pre \<Longrightarrow> re_search disposition_match_at (pre @ s) = re_search disposition_match_at s"
proof (induction pre)
  case Nil
  then show ?case by simp
next
  case (Cons c pre)
  then have "disposition_match_at (c # pre @ s) = None"
    by (simp add: disposition_match_needs_C)
  with Cons show ?case
    by simp
qed

lemma re_search_named:
  assumes "67 \<notin> set pre" and "n \<noteq> []" and "34 \<notin> set n"
  shows "re_search disposition_match_at (pre @ name_literal @ n @ 34 # rest)
           = Some (n, filename_group rest)"
proof -
  obtain t where t: "name_literal = 67 # t"
    using name_literal_head by blast
  have "re_search disposition_match_at (name_literal @ n @ 34 # rest) = Some (n, filename_group rest)"
    using disposition_match_named [OF assms(2,3), of rest] by (simp add: t)
  with re_search_skip [OF assms(1)] show ?thesis
    by simp
qed

lemma re_search_empty_name:
  assumes "67 \<notin> set pre"
  shows "re_search disposition_match_at (pre @ name_literal @ 34 # post)
           = re_search disposition_match_at post"
proof -
  obtain t where t: "name_literal = 67 # t" and nt: "67 \<notin> set t"
    using name_literal_head by blast
  have "re_search disposition_match_at (name_literal @ 34 # post)
          = re_search disposition_match_at ((t @ [34]) @ post)"
    using disposition_match_empty_name [of post] by (simp add: t)
  also have "\<dots> = re_search disposition_match_at post"
    using nt by (intro re_search_skip) simp
  finally show ?thesis
    using re_search_skip [OF assms] by simp
qed

section \<open>Facts about \<open>rstrip\<close> and the decoder\<close>

lemma rstrip_crlf_append:
  "\<forall>c\<in>set nls. c = CR \<or> c = LF \<Longrightarrow> rstrip_crlf (p @ nls) = rstrip_crlf p"
proof -
  assume "\<forall>c\<in>set nls. c = CR \<or> c = LF"
  then have "dropWhile (\<lambda>c. c = CR \<or> c = LF) (rev nls @ rev p)
      = dropWhile (\<lambda>c. c = CR \<or> c = LF) (rev p)"
    by (intro dropWhile_append2) simp
  then show ?thesis
    by (simp add: rstrip_crlf_def)
qed

lemma rstrip_crlf_id:
  "p = [] \<or> (last p \<noteq> CR \<and> last p \<noteq> LF) \<Longrightarrow> rstrip_crlf p = p"
  by (cases p rule: rev_cases) (auto simp: rstrip_crlf_def)

lemma rstrip_crlf_last:
  "rstrip_crlf b = [] \<or> (last (rstrip_crlf b) \<noteq> CR \<and> last (rstrip_crlf b) \<noteq> LF)"
proof (cases "dropWhile (\<lambda>c. c = CR \<or> c = LF) (rev b)")
  case Nil
  then show ?thesis by (simp add: rstrip_crlf_def)
next
  case (Cons a list)
  then have "\<not> (a = CR \<or> a = LF)"
    using hd_dropWhile [of "\<lambda>c. c = CR \<or> c = LF" "rev b"] by simp
  with Cons show ?thesis
    by (simp add: rstrip_crlf_def)
qed

lemma rstrip_crlf_strips:
  assumes "\<forall>c\<in>set nls. c = CR \<or> c = LF" and "p = [] \<or> (last p \<noteq> CR \<and> last p \<noteq> LF)"
  shows "rstrip_crlf (p @ nls) = p"
  using rstrip_crlf_append [OF assms(1)] rstrip_crlf_id [OF assms(2)] by simp

text \<open>
  A decoded text that ends in an ASCII character comes from bytes that end in the same
  character: every multi-byte sequence decodes to a code point from 128 on.
\<close>

lemma utf8_decode_Nil: "utf8_decode bs = Some [] \<Longrightarrow> bs = []"
  by (cases bs) (auto simp: Let_def split: if_splits list.splits)

lemma utf8_decode_ascii_last:
  "utf8_decode bs = Some cs \<Longrightarrow> cs \<noteq> [] \<Longrightarrow> last cs < 0x80
     \<Longrightarrow> bs \<noteq> [] \<and> of_char (last bs) = last cs"
proof (induction bs arbitrary: cs rule: utf8_decode.induct)
  case 1
  then show ?case by simp
next
  case (2 b0 bs)
  from "2.prems" show ?case
    apply (simp add: Let_def split: if_splits list.splits)
    subgoal
      using "2.IH"(1) utf8_decode_Nil by (auto simp: Let_def)
    subgoal
      using "2.IH"(2) utf8_decode_Nil by (auto simp: Let_def is_cont_def cont_def)
    subgoal
      using "2.IH"(3) utf8_decode_Nil by (auto simp: Let_def is_cont_def cont_def)
    subgoal
      using "2.IH"(4) utf8_decode_Nil by (auto simp: Let_def is_cont_def cont_def)
    done
qed

section \<open>Facts about the decoder and its loop\<close>

lemma decode_parts:
  assumes "re_search boundary_match_at content_type = Some boundary"
    and "utf8_encode boundary = Some b"
  shows "parse_multipart_form_data body content_type
           = Inr (foldl parse_step (Map.empty, []) (inner_parts (split_all (''--'' @ b) body)))"
  using assms by (simp add: parse_multipart_form_data_def bytes_split_def)

lemma decode_framed:
  assumes "re_search boundary_match_at content_type = Some boundary"
    and "utf8_encode boundary = Some b"
    and "list_all (clean (''--'' @ b)) (preamble # parts)"
    and "split_once (''--'' @ b) closing = None"
  shows "parse_multipart_form_data (multipart_body (''--'' @ b) preamble parts closing) content_type
           = Inr (foldl parse_step (Map.empty, []) parts)"
proof -
  have "split_all (''--'' @ b) (multipart_body (''--'' @ b) preamble parts closing)
          = preamble # parts @ [closing]"
    unfolding multipart_body_def
    using assms(3,4) by (intro split_all_parts) simp_all
  then show ?thesis
    using decode_parts [OF assms(1,2)] by (simp add: inner_parts_framed)
qed

lemma parse_step_Stored:
  "parse_part p = Stored n v \<Longrightarrow> parse_step st p = ((fst st)(n \<mapsto> v), snd st)"
  by (simp add: parse_step_def)

lemma parse_step_Failed:
  "parse_part p = Failed e \<Longrightarrow> parse_step st p = (fst st, snd st @ [e])"
  by (simp add: parse_step_def)

lemma parse_step_Skipped: "parse_part p = Skipped \<Longrightarrow> parse_step st p = st"
  by (simp add: parse_step_def)

lemma parse_step_fields:
  "fst (parse_step st p) = (case parse_part p of Stored n v \<Rightarrow> (fst st)(n \<mapsto> v) | _ \<Rightarrow> fst st)"
  by (simp add: parse_step_def split: part_result.splits)

lemma parse_step_not_stored:
  "\<not> stores (parse_part p) \<Longrightarrow> fst (parse_step st p) = fst st"
  by (cases "parse_part p") (simp_all add: parse_step_def)

lemma foldl_parse_step_dom:
  "dom (fst (foldl parse_step st ps))
     = dom (fst st) \<union> {n. \<exists>p\<in>set ps. \<exists>v. parse_part p = Stored n v}"
proof (induction ps arbitrary: st)
  case Nil
  then show ?case by simp
next
  case (Cons p ps)
  have "dom (fst (parse_step st p)) = dom (fst st) \<union> {n. \<exists>v. parse_part p = Stored n v}"
    by (cases "parse_part p") (auto simp: parse_step_def)
  with Cons [of "parse_step st p"] show ?case
    by auto
qed

lemma foldl_parse_step_finite:
  "finite (dom (fst st)) \<Longrightarrow> finite (dom (fst (foldl parse_step st ps)))"
proof (induction ps arbitrary: st)
  case Nil
  then show ?case by simp
next
  case (Cons p ps)
  have "finite (dom (fst (parse_step st p)))"
    using Cons.prems by (cases "parse_part p") (simp_all add: parse_step_def)
  with Cons.IH show ?case by simp
qed

lemma foldl_parse_step_card:
  "finite (dom (fst st)) \<Longrightarrow>
     card (dom (fst (foldl parse_step st ps))) \<le> card (dom (fst st)) + length ps"
proof (induction ps arbitrary: st)
  case Nil
  then show ?case by simp
next
  case (Cons p ps)
  have fin: "finite (dom (fst (parse_step st p)))"
    using Cons.prems by (cases "parse_part p") (simp_all add: parse_step_def)
  have "card (dom (fst (parse_step st p))) \<le> card (dom (fst st)) + 1"
    using Cons.prems
    by (cases "parse_part p") (simp_all add: parse_step_def card_insert_if)
  with Cons.IH [OF fin] show ?case by simp
qed



lemma foldl_parse_step_invariant:
  assumes "\<And>p n v. parse_part p = Stored n v \<Longrightarrow> P v"
    and "\<And>n v. fst st n = Some v \<Longrightarrow> P v"
    and "fst (foldl parse_step st ps) n = Some v"
  shows "P v"
  using assms(2,3)
proof (induction ps arbitrary: st)
  case Nil
  then show ?case by simp
next
  case (Cons p ps)
  have "\<And>n v. fst (parse_step st p) n = Some v \<Longrightarrow> P v"
    using Cons.prems(1) assms(1) [of p]
    by (cases "parse_part p") (auto simp: parse_step_def split: if_splits)
  with Cons.IH [of "parse_step st p"] Cons.prems(2) show ?case
    by simp
qed

lemma foldl_parse_step_log_irrelevant:
  "fst (foldl parse_step (f, l) ps) = fst (foldl parse_step (f, l') ps)"
proof (induction ps arbitrary: f l l')
  case Nil
  then show ?case by simp
next
  case (Cons p ps)
  show ?case
  proof (cases "parse_part p")
    case Skipped
    then show ?thesis
      using Cons.IH [of f l l'] by (simp add: parse_step_Skipped)
  next
    case (Failed e)
    then show ?thesis
      using Cons.IH [of f "l @ [e]" "l' @ [e]"] by (simp add: parse_step_Failed)
  next
    case (Stored n v)
    then have "parse_step (f, l) p = (f(n \<mapsto> v), l)"
      and "parse_step (f, l') p = (f(n \<mapsto> v), l')"
      by (simp_all add: parse_step_Stored)
    then show ?thesis
      unfolding foldl_Cons by (simp only: Cons.IH [of "f(n \<mapsto> v)" l l'])
  qed
qed

lemma foldl_parse_step_fst_cong:
  assumes "fst st = fst st'"
  shows "fst (foldl parse_step st ps) = fst (foldl parse_step st' ps)"
proof -
  obtain f l l' where "st = (f, l)" and "st' = (f, l')"
    using assms by (cases st, cases st') simp
  then show ?thesis
    using foldl_parse_step_log_irrelevant [of f l ps l'] by simp
qed

lemma foldl_parse_step_filter:
  "fst (foldl parse_step st ps)
     = fst (foldl parse_step st (filter (\<lambda>p. stores (parse_part p)) ps))"
proof (induction ps arbitrary: st)
  case Nil
  then show ?case by simp
next
  case (Cons p ps)
  show ?case
  proof (cases "stores (parse_part p)")
    case True
    with Cons show ?thesis by simp
  next
    case False
    then have "fst (foldl parse_step (parse_step st p) ps) = fst (foldl parse_step st ps)"
      by (intro foldl_parse_step_fst_cong parse_step_not_stored)
    with False Cons show ?thesis by simp
  qed
qed

lemma parse_part_cases:
  assumes "parse_part p = Stored n v"
  obtains h b hs fn where "split_once blank_line p = Some (h, b)"
    and "utf8_decode h = Some hs"
    and "re_search disposition_match_at hs = Some (n, fn)"
    and "(\<exists>f. v = FileField f (rstrip_crlf b))
         \<or> (\<exists>s. v = Text s \<and> utf8_decode (rstrip_crlf b) = Some s)"
  using assms
  by (auto simp: parse_part_def text_field_def split: option.splits if_splits)

lemma parse_part_name: "parse_part p = Stored n v \<Longrightarrow> part_name p = Some n"
  by (erule parse_part_cases) (simp add: part_name_def)

lemma not_suffix_newline:
  "c = [] \<or> (last c \<noteq> x \<and> last c \<noteq> y) \<Longrightarrow> \<not> suffix [x, y] c"
  by (auto simp: suffix_def)

lemma text_no_newline:
  assumes "utf8_decode (rstrip_crlf b) = Some s"
  shows "\<not> suffix [13, 10] s"
proof
  assume "suffix [13, 10] s"
  then obtain xs where s: "s = xs @ [13, 10]"
    by (auto simp: suffix_def)
  then have "s \<noteq> []" and "last s = 10"
    by simp_all
  with utf8_decode_ascii_last [OF assms] have "rstrip_crlf b \<noteq> []"
    and "of_char (last (rstrip_crlf b)) = (10 :: nat)"
    by simp_all
  moreover have "of_char LF = (10 :: nat)"
    by (simp add: LF_def)
  ultimately have "last (rstrip_crlf b) = LF"
    by (intro of_char_eqI [where ?'a = nat]) simp
  with \<open>rstrip_crlf b \<noteq> []\<close> rstrip_crlf_last [of b] show False
    by simp
qed

lemma parse_part_clean_value: "parse_part p = Stored n v \<Longrightarrow> clean_value v"
proof (erule parse_part_cases)
  fix h b hs fn
  assume "(\<exists>f. v = FileField f (rstrip_crlf b))
         \<or> (\<exists>s. v = Text s \<and> utf8_decode (rstrip_crlf b) = Some s)"
  moreover have "\<not> suffix [CR, LF] (rstrip_crlf b)"
    using rstrip_crlf_last [of b] by (rule not_suffix_newline)
  ultimately show "clean_value v"
    using text_no_newline [of b] by (auto simp: clean_value_def)
qed

lemma example_boundary: "re_search boundary_match_at example_type = Some (ascii ''B'')"
  by code_simp

lemma example_encode: "utf8_encode (ascii ''B'') = Some ''B''"
  by code_simp

lemma example_closing: "split_once (''--'' @ ''B'') (''--'' @ crlf) = None"
  by code_simp

lemma example_file_stored:
  "parse_part example_file_part = Stored (ascii ''file'') (FileField (ascii ''a.mp3'') ''xyz'')"
  by code_simp

lemma example_note_stored: "parse_part example_note_part = Stored (ascii ''note'') (Text (ascii ''hi''))"
  by code_simp

lemma example_second_stored:
  "parse_part example_second_note = Stored (ascii ''note'') (Text (ascii ''yo''))"
  by code_simp

lemma example_broken_failed:
  "parse_part example_broken_part
     = Failed (ValueError ''not enough values to unpack (expected 2, got 1)'')"
  by code_simp


lemma decode_result:
  assumes "parse_multipart_form_data body content_type = Inr (flds, printed)"
  shows "\<exists>parts. foldl parse_step (Map.empty, []) parts = (flds, printed)"
proof (cases "re_search boundary_match_at content_type")
  case None
  with assms show ?thesis
    by (simp add: parse_multipart_form_data_def)
next
  case (Some boundary)
  show ?thesis
  proof (cases "utf8_encode boundary")
    case None
    with Some assms show ?thesis
      by (simp add: parse_multipart_form_data_def)
  next
    case (Some b)
    with \<open>re_search boundary_match_at content_type = Some boundary\<close> assms
    have "foldl parse_step (Map.empty, []) (inner_parts (split_all (''--'' @ b) body))
            = (flds, printed)"
      using decode_parts [of content_type boundary b body] by simp
    then show ?thesis ..
  qed
qed

lemma re_search_first:
  assumes "clean name_literal pre"
  shows "re_search disposition_match_at (pre @ name_literal @ r)
           = re_search disposition_match_at (name_literal @ r)"
  using assms unfolding clean_def
proof (induction pre)
  case Nil
  then show ?case by simp
next
  case (Cons a p)
  have lit: "name_literal \<noteq> []"
    using name_literal_head by auto
  from Cons.prems have no: "\<not> prefix name_literal ((a # p) @ butlast name_literal)"
    and rest: "split_once name_literal (p @ butlast name_literal) = None"
    by (auto simp: strip_prefix_None [symmetric] split: option.splits)
  have "\<not> prefix name_literal ((a # p) @ name_literal @ r)"
    using no prefix_shorter [OF _ lit, of "a # p" r] by blast
  then have "disposition_match_at (a # p @ name_literal @ r) = None"
    by (simp add: disposition_match_at_def strip_prefix_None [symmetric])
  with Cons.IH [OF rest] show ?case
    by simp
qed

lemma re_search_first_named:
  assumes "clean name_literal pre" and "n \<noteq> []" and "34 \<notin> set n"
  shows "re_search disposition_match_at (pre @ name_literal @ n @ 34 # rest)
           = Some (n, filename_group rest)"
  using re_search_first [OF assms(1), of "n @ 34 # rest"]
    re_search_named [of "[]" n rest] assms(2,3)
  by simp

lemma re_search_first_empty_name:
  assumes "clean name_literal pre"
  shows "re_search disposition_match_at (pre @ name_literal @ 34 # post)
           = re_search disposition_match_at post"
  using re_search_first [OF assms, of "34 # post"] re_search_empty_name [of "[]" post]
  by simp

lemma parse_part_split:
  assumes "clean blank_line hdr"
  shows "split_once blank_line (hdr @ blank_line @ part_body) = Some (hdr, part_body)"
  using assms unfolding clean_def
  by (intro split_once_first) (simp_all add: blank_line_def)

lemma parse_part_file:
  assumes "clean blank_line hdr"
    and "utf8_decode hdr = Some hs"
    and "re_search disposition_match_at hs = Some (n, Some x)"
    and "x \<noteq> []"
  shows "parse_part (hdr @ blank_line @ part_body) = Stored n (FileField x (rstrip_crlf part_body))"
  using parse_part_split [OF assms(1), of part_body] assms(2-4)
  by (simp add: parse_part_def)

lemma parse_part_text:
  assumes "clean blank_line hdr"
    and "utf8_decode hdr = Some hs"
    and "re_search disposition_match_at hs = Some (n, None)"
  shows "parse_part (hdr @ blank_line @ part_body) = text_field n part_body"
  using parse_part_split [OF assms(1), of part_body] assms(2,3)
  by (simp add: parse_part_def)

lemma parse_part_unmatched:
  assumes "clean blank_line hdr"
    and "utf8_decode hdr = Some hs"
    and "re_search disposition_match_at hs = None"
  shows "parse_part (hdr @ blank_line @ part_body) = Skipped"
  using parse_part_split [OF assms(1), of part_body] assms(2,3)
  by (simp add: parse_part_def)

lemma parse_part_same_payload:
  assumes "clean blank_line hdr" and "rstrip_crlf b = rstrip_crlf b'"
  shows "parse_part (hdr @ blank_line @ b) = parse_part (hdr @ blank_line @ b')"
proof -
  have "\<And>n. text_field n b = text_field n b'"
    by (simp add: text_field_def assms(2))
  then show ?thesis
    using parse_part_split [OF assms(1), of b] parse_part_split [OF assms(1), of b'] assms(2)
    by (simp add: parse_part_def split: option.splits)
qed

lemma example_header_clean: "clean blank_line example_header"
  by code_simp

lemma example_header_decoded:
  "utf8_decode example_header
     = Some ([13, 10] @ name_literal @ ascii ''file'' @ 34 # filename_literal @ ascii ''a.mp3'' @ 34 # [])"
  by code_simp

lemma example_note_header_clean: "clean blank_line example_note_header"
  by code_simp

lemma example_note_header_decoded:
  "utf8_decode example_note_header = Some ([13, 10] @ name_literal @ ascii ''note'' @ 34 # [])"
  by code_simp

lemma example_pre_clean: "clean name_literal [13, 10]"
  by code_simp

lemma example_empty_name_clean: "clean blank_line example_empty_name_header"
  by code_simp

lemma example_empty_name_decoded:
  "utf8_decode example_empty_name_header = Some ([13, 10] @ name_literal @ 34 # [])"
  by code_simp

lemma example_empty_filename_clean: "clean blank_line example_empty_filename_header"
  by code_simp

lemma example_empty_filename_decoded:
  "utf8_decode example_empty_filename_header
     = Some ([13, 10] @ name_literal @ ascii ''file'' @ 34 # filename_literal @ 34 #
             ([13, 10] @ ascii ''Content-Type: application/octet-stream''))"
  by code_simp

lemma example_upload_body: "utf8_encode (ascii ''--B--'') = Some ''--B--''"
  by code_simp

lemma example_upload_type:
  "lowered ascii_lower [(ascii ''Content-Type'', ascii ''multipart/form-data'')] (ascii ''content-type'')
     = Some (ascii ''multipart/form-data'')"
  by (simp add: lowered_def ascii_lower_def ascii_def)

lemma example_upload_no_boundary:
  "parse_multipart_form_data ''--B--'' (ascii ''multipart/form-data'')
     = Inl (ValueError ''Invalid Content-Type header: missing boundary'')"
proof -
  have "split_once (ascii ''boundary='') (ascii ''multipart/form-data'') = None"
    by code_simp
  then show ?thesis
    by (simp add: parse_multipart_form_data_def re_search_boundary_None)
qed

lemma upload_status:
  "statusCode (upload_lambda_handler lower store event)
     = (case upload_try lower store event of Inl e \<Rightarrow> 500 | Inr key \<Rightarrow> 200)"
  by (simp add: upload_lambda_handler_def split: sum.splits)

lemma well_formed_part_stored:
  assumes "well_formed_part p n v"
  shows "parse_part p = Stored n v"
proof -
  from assms obtain hdr pre rest part_body where p: "p = hdr @ blank_line @ part_body"
    and hdr: "clean blank_line hdr"
    and dec: "utf8_decode hdr = Some (pre @ name_literal @ n @ 34 # rest)"
    and pre: "clean name_literal pre" and n: "n \<noteq> []" "34 \<notin> set n"
    and v: "(\<exists>x post. rest = filename_literal @ x @ 34 # post \<and> x \<noteq> [] \<and> 34 \<notin> set x
                      \<and> v = FileField x (rstrip_crlf part_body))
           \<or> (\<not> prefix filename_literal rest
               \<and> (\<exists>s. utf8_decode (rstrip_crlf part_body) = Some s \<and> v = Text s))"
    unfolding well_formed_part_def by blast
  note found = re_search_first_named [OF pre n, of rest]
  from v show ?thesis
  proof
    assume "\<exists>x post. rest = filename_literal @ x @ 34 # post \<and> x \<noteq> [] \<and> 34 \<notin> set x
                      \<and> v = FileField x (rstrip_crlf part_body)"
    then obtain x post where rest: "rest = filename_literal @ x @ 34 # post"
      and x: "x \<noteq> []" "34 \<notin> set x" and val: "v = FileField x (rstrip_crlf part_body)"
      by blast
    have "re_search disposition_match_at (pre @ name_literal @ n @ 34 # rest) = Some (n, Some x)"
      using found x by (simp add: rest filename_group_named)
    then show ?thesis
      unfolding p val using x(1) by (intro parse_part_file [OF hdr dec])
  next
    assume t: "\<not> prefix filename_literal rest
               \<and> (\<exists>s. utf8_decode (rstrip_crlf part_body) = Some s \<and> v = Text s)"
    then have "re_search disposition_match_at (pre @ name_literal @ n @ 34 # rest) = Some (n, None)"
      using found by (simp add: filename_group_absent)
    then have "parse_part (hdr @ blank_line @ part_body) = text_field n part_body"
      by (intro parse_part_text [OF hdr dec])
    with t show ?thesis
      unfolding p by (auto simp: text_field_def)
  qed
qed

lemma well_formed_file_part:
  assumes "clean blank_line hdr"
    and "utf8_decode hdr = Some (pre @ name_literal @ n @ 34 # filename_literal @ x @ 34 # post)"
    and "clean name_literal pre" and "n \<noteq> []" and "34 \<notin> set n"
    and "x \<noteq> []" and "34 \<notin> set x"
  shows "well_formed_part (hdr @ blank_line @ part_body) n (FileField x (rstrip_crlf part_body))"
  unfolding well_formed_part_def using assms by blast

lemma well_formed_text_part:
  assumes "clean blank_line hdr"
    and "utf8_decode hdr = Some (pre @ name_literal @ n @ 34 # rest)"
    and "clean name_literal pre" and "n \<noteq> []" and "34 \<notin> set n"
    and "\<not> prefix filename_literal rest"
    and "utf8_decode (rstrip_crlf part_body) = Some s"
  shows "well_formed_part (hdr @ blank_line @ part_body) n (Text s)"
  unfolding well_formed_part_def using assms by blast

lemma foldl_parse_step_no_error:
  "\<forall>p\<in>set ps. stores (parse_part p) \<Longrightarrow> snd (foldl parse_step st ps) = snd st"
proof (induction ps arbitrary: st)
  case Nil
  then show ?case by simp
next
  case (Cons p ps)
  then have "snd (parse_step st p) = snd st"
    by (cases "parse_part p") (simp_all add: parse_step_def)
  with Cons show ?case by simp
qed

lemma example_names: "ascii ''note'' \<noteq> []" "34 \<notin> set (ascii ''note'')"
  "ascii ''file'' \<noteq> []" "34 \<notin> set (ascii ''file'')"
  "ascii ''a.mp3'' \<noteq> []" "34 \<notin> set (ascii ''a.mp3'')"
  "ascii ''file'' \<noteq> ascii ''note''"
  by (simp_all add: ascii_def)

lemma example_no_filename: "\<not> prefix filename_literal []"
  by (simp add: filename_literal_def ascii_def)

lemma example_note_well_formed:
  "well_formed_part example_note_part (ascii ''note'') (Text (ascii ''hi''))"
proof -
  have part: "example_note_part = example_note_header @ blank_line @ (''hi'' @ crlf)"
    by (simp add: example_note_part_def example_note_header_def)
  have dec: "utf8_decode (rstrip_crlf (''hi'' @ crlf)) = Some (ascii ''hi'')"
    by code_simp
  show ?thesis
    unfolding part
    by (rule well_formed_text_part [OF example_note_header_clean example_note_header_decoded
          example_pre_clean example_names(1,2) example_no_filename dec])
qed

lemma example_second_well_formed:
  "well_formed_part example_second_note (ascii ''note'') (Text (ascii ''yo''))"
proof -
  have part: "example_second_note = example_note_header @ blank_line @ (''yo'' @ crlf)"
    by (simp add: example_second_note_def example_note_header_def)
  have dec: "utf8_decode (rstrip_crlf (''yo'' @ crlf)) = Some (ascii ''yo'')"
    by code_simp
  show ?thesis
    unfolding part
    by (rule well_formed_text_part [OF example_note_header_clean example_note_header_decoded
          example_pre_clean example_names(1,2) example_no_filename dec])
qed

lemma example_file_well_formed:
  "well_formed_part example_file_part (ascii ''file'') (FileField (ascii ''a.mp3'') ''xyz'')"
proof -
  have part: "example_file_part = example_header @ blank_line @ (''xyz'' @ crlf)"
    by (simp add: example_file_part_def example_header_def)
  have strip: "rstrip_crlf (''xyz'' @ crlf) = ''xyz''"
    by code_simp
  have "well_formed_part (example_header @ blank_line @ (''xyz'' @ crlf)) (ascii ''file'')
          (FileField (ascii ''a.mp3'') (rstrip_crlf (''xyz'' @ crlf)))"
    by (rule well_formed_file_part [OF example_header_clean example_header_decoded
          example_pre_clean example_names(3-6)])
  then show ?thesis
    by (simp only: part strip)
qed





lemma example_two_names_stored:
  "parse_part (example_two_names_header @ blank_line @ ''abc'' @ crlf)
     = Stored (ascii ''z'') (Text (ascii ''abc''))"
  by code_simp

section \<open>The claims\<close>

subsection \<open>C1: a content type without a boundary parameter\<close>

text \<open>
  C1. When the string \<open>boundary=\<close> does not occur in \<open>content_type\<close>, the decoder
  raises \<open>ValueError("Invalid Content-Type header: missing boundary")\<close> whatever the
  body is, and returns no mapping.
\<close>

theorem missing_boundary_raises:
  assumes "split_once (ascii ''boundary='') content_type = None"
  shows "parse_multipart_form_data body content_type
           = Inl (ValueError ''Invalid Content-Type header: missing boundary'')"
  using re_search_boundary_None [OF assms]
  by (simp add: parse_multipart_form_data_def)

theorem missing_boundary_raises_witness:
  "split_once (ascii ''boundary='') (ascii ''multipart/form-data'') = None
   \<and> parse_multipart_form_data ''--B--'' (ascii ''multipart/form-data'')
       = Inl (ValueError ''Invalid Content-Type header: missing boundary'')"
proof -
  have h: "split_once (ascii ''boundary='') (ascii ''multipart/form-data'') = None"
    by code_simp
  show ?thesis
    using h missing_boundary_raises [OF h, of "''--B--''"] by simp
qed

subsection \<open>C2: the status codes of the two handlers\<close>

text \<open>
  C2 as stated fails for the upload handler: its only \<open>except\<close> branch answers every
  exception with status 500, the \<open>ValueError\<close> of a missing boundary included. Here the
  content type is \<open>multipart/form-data\<close> with no boundary.
\<close>

theorem upload_client_error_counterexample:
  "upload_lambda_handler ascii_lower (\<lambda>file_content file_name. Inr (ascii ''key''))
     example_upload_event
     = \<lparr>statusCode = 500,
        reply = ErrorReply (ValueError ''Invalid Content-Type header: missing boundary'')\<rparr>
   \<and> \<not> (400 \<le> (500 :: nat) \<and> (500 :: nat) < 500)"
proof -
  have "ascii ''multipart/form-data'' \<noteq> []"
    by (simp add: ascii_def)
  then show ?thesis
    using example_upload_body example_upload_type example_upload_no_boundary
    by (simp add: upload_lambda_handler_def upload_try_def example_upload_event_def)
qed

text \<open>
  C2, amended. When the upload handler fails because the content type has no boundary,
  because the decoded fields have no \<open>file\<close> entry or because the file content is empty,
  its response carries status 500, and it never answers with any code but 200 and 500.
  The speech handler answers with status 400 when one of the event keys
  \<open>translated_text\<close>, \<open>bucket\<close> and \<open>output_file\<close> is missing.
\<close>

theorem handler_status_codes:
  "(ev_body event = Some b \<and> utf8_encode b = Some body \<and> ev_headers event = Some hs
      \<and> lowered lower hs (ascii ''content-type'') = Some content_type \<and> content_type \<noteq> []
      \<and> (parse_multipart_form_data body content_type
            = Inl (ValueError ''Invalid Content-Type header: missing boundary'')
          \<or> (\<exists>flds printed.
                parse_multipart_form_data body content_type = Inr (flds, printed)
                \<and> (flds (ascii ''file'') = None
                    \<or> (\<exists>name. flds (ascii ''file'') = Some (FileField name [])))))
      \<longrightarrow> statusCode (upload_lambda_handler lower store event) = 500)
   \<and> (statusCode (upload_lambda_handler lower store event) = 200
       \<or> statusCode (upload_lambda_handler lower store event) = 500)
   \<and> (translated_text ev = None \<or> bucket ev = None \<or> output_file ev = None
      \<longrightarrow> statusCode (polly_lambda_handler default_name synthesize_speech put_object ev) = 400)"
proof (intro conjI impI)
  assume "ev_body event = Some b \<and> utf8_encode b = Some body \<and> ev_headers event = Some hs
      \<and> lowered lower hs (ascii ''content-type'') = Some content_type \<and> content_type \<noteq> []
      \<and> (parse_multipart_form_data body content_type
            = Inl (ValueError ''Invalid Content-Type header: missing boundary'')
          \<or> (\<exists>flds printed.
                parse_multipart_form_data body content_type = Inr (flds, printed)
                \<and> (flds (ascii ''file'') = None
                    \<or> (\<exists>name. flds (ascii ''file'') = Some (FileField name [])))))"
  then have "\<exists>e. upload_try lower store event = Inl e"
    by (auto simp: upload_try_def)
  then show "statusCode (upload_lambda_handler lower store event) = 500"
    by (auto simp: upload_status)
next
  show "statusCode (upload_lambda_handler lower store event) = 200
        \<or> statusCode (upload_lambda_handler lower store event) = 500"
    by (cases "upload_try lower store event") (simp_all add: upload_status)
next
  assume "translated_text ev = None \<or> bucket ev = None \<or> output_file ev = None"
  then have "\<exists>k. polly_try default_name synthesize_speech put_object ev = Inl (KeyError k)"
    by (auto simp: polly_try_def split: option.splits)
  then show "statusCode (polly_lambda_handler default_name synthesize_speech put_object ev) = 400"
    by (auto simp: polly_lambda_handler_def)
qed

theorem handler_status_codes_witness:
  "ev_body example_upload_event = Some (ascii ''--B--'')
   \<and> utf8_encode (ascii ''--B--'') = Some ''--B--''
   \<and> ev_headers example_upload_event
       = Some [(ascii ''Content-Type'', ascii ''multipart/form-data'')]
   \<and> lowered ascii_lower [(ascii ''Content-Type'', ascii ''multipart/form-data'')]
        (ascii ''content-type'') = Some (ascii ''multipart/form-data'')
   \<and> ascii ''multipart/form-data'' \<noteq> []
   \<and> parse_multipart_form_data ''--B--'' (ascii ''multipart/form-data'')
       = Inl (ValueError ''Invalid Content-Type header: missing boundary'')
   \<and> statusCode (upload_lambda_handler ascii_lower (\<lambda>file_content file_name. Inr (ascii ''key''))
        example_upload_event) = 500
   \<and> bucket example_speech_event = None
   \<and> statusCode (polly_lambda_handler (ascii ''speech.mp3'') (\<lambda>text. Inr None)
        (\<lambda>name audio. Inr ()) example_speech_event) = 400"
proof -
  have b: "ev_body example_upload_event = Some (ascii ''--B--'')"
    and h: "ev_headers example_upload_event
              = Some [(ascii ''Content-Type'', ascii ''multipart/form-data'')]"
    by (simp_all add: example_upload_event_def)
  have ne: "ascii ''multipart/form-data'' \<noteq> []"
    by (simp add: ascii_def)
  have k: "bucket example_speech_event = None"
    by (simp add: example_speech_event_def)
  note t = handler_status_codes [of example_upload_event "ascii ''--B--''" "''--B--''"
      "[(ascii ''Content-Type'', ascii ''multipart/form-data'')]" ascii_lower
      "ascii ''multipart/form-data''" "\<lambda>file_content file_name. Inr (ascii ''key'')"
      example_speech_event "ascii ''speech.mp3''" "\<lambda>text. Inr None" "\<lambda>name audio. Inr ()"]
  have u: "statusCode (upload_lambda_handler ascii_lower
             (\<lambda>file_content file_name. Inr (ascii ''key'')) example_upload_event) = 500"
    using t b example_upload_body h example_upload_type ne example_upload_no_boundary
    by blast
  have p: "statusCode (polly_lambda_handler (ascii ''speech.mp3'') (\<lambda>text. Inr None)
             (\<lambda>name audio. Inr ()) example_speech_event) = 400"
    using t k by blast
  from b example_upload_body h example_upload_type ne example_upload_no_boundary u k p
  show ?thesis
    by (intro conjI)
qed

subsection \<open>C3: the decoder returns a mapping whatever the parts are\<close>

text \<open>
  C3 as stated fails: the boundary token is encoded with \<open>boundary.encode()\<close> before
  the loop and outside its \<open>try\<close>, and a token that holds a lone surrogate code point
  makes that call raise \<open>UnicodeEncodeError\<close>, although the content type does carry a
  boundary parameter.
\<close>

theorem never_raises_counterexample:
  "re_search boundary_match_at (ascii ''multipart/form-data; boundary='' @ [0xD800]) = Some [0xD800]
   \<and> parse_multipart_form_data [] (ascii ''multipart/form-data; boundary='' @ [0xD800])
       = Inl UnicodeEncodeError"
proof -
  have found: "re_search boundary_match_at (ascii ''multipart/form-data; boundary='' @ [0xD800])
                 = Some [0xD800]"
    by (simp add: ascii_def boundary_match_at_def)
  have "utf8_encode [0xD800] = None"
    by (simp add: encode_cp_def)
  with found show ?thesis
    by (simp add: parse_multipart_form_data_def)
qed

text \<open>
  C3, amended. When \<open>boundary=\<close> is followed by a token (one character or more other
  than \<open>;\<close>) that can be encoded as UTF-8, the decoder returns a mapping for every body:
  no part makes it raise. The mapping is the one the parts that store an entry give, so a
  part that fails or does not match is skipped and the parts behind it still count.
\<close>

theorem decode_returns_mapping:
  assumes "re_search boundary_match_at content_type = Some boundary"
    and "utf8_encode boundary = Some b"
  shows "\<exists>flds printed.
           parse_multipart_form_data body content_type = Inr (flds, printed)
           \<and> flds = fst (foldl parse_step (Map.empty, [])
                          (filter (\<lambda>p. stores (parse_part p))
                             (inner_parts (split_all (''--'' @ b) body))))"
  using decode_parts [OF assms, of body]
    foldl_parse_step_filter [of "(Map.empty, [])" "inner_parts (split_all (''--'' @ b) body)"]
  by (metis prod.collapse)

theorem decode_returns_mapping_witness:
  "re_search boundary_match_at example_type = Some (ascii ''B'')
   \<and> utf8_encode (ascii ''B'') = Some ''B''
   \<and> (\<exists>flds printed.
         parse_multipart_form_data (''--B'' @ example_broken_part @ ''--B'' @ example_note_part @ ''--B--'')
           example_type = Inr (flds, printed)
         \<and> flds = fst (foldl parse_step (Map.empty, [])
                        (filter (\<lambda>p. stores (parse_part p))
                           (inner_parts (split_all (''--'' @ ''B'')
                              (''--B'' @ example_broken_part @ ''--B'' @ example_note_part @ ''--B--''))))))"
  using example_boundary example_encode
    decode_returns_mapping [OF example_boundary example_encode,
      of "''--B'' @ example_broken_part @ ''--B'' @ example_note_part @ ''--B--''"]
  by (intro conjI)

subsection \<open>C4: one well-formed part and one part without a blank line\<close>



subsection \<open>C5: file values and plain strings\<close>

text \<open>
  C5. A file value is to hold the filename of its part and, as content, the payload
  bytes of the part. Here the decoder runs on a body with one file part whose payload,
  between the blank line and the CR LF before the closing delimiter, is \<open>xyz\<close> followed
  by LF. The filename is stored as the header gives it, and the stored content is
  \<open>xyz\<close>: it is not the payload, whose last byte is gone with the CR LF behind it.
\<close>

theorem file_content_truncated:
  "parse_multipart_form_data
     (''--B'' @ example_header @ blank_line @ (''xyz'' @ [LF]) @ crlf @ ''--B--'' @ crlf)
     example_type
     = Inr ([ascii ''file'' \<mapsto> FileField (ascii ''a.mp3'') ''xyz''], [])
   \<and> ''xyz'' \<noteq> ''xyz'' @ [LF]"
proof -
  have body: "''--B'' @ example_header @ blank_line @ (''xyz'' @ [LF]) @ crlf @ ''--B--'' @ crlf
      = multipart_body (''--'' @ ''B'') []
          [example_header @ blank_line @ (''xyz'' @ [LF]) @ crlf] (''--'' @ crlf)"
    by (simp add: multipart_body_def)
  have cl: "list_all (clean (''--'' @ ''B''))
              ([] # [example_header @ blank_line @ (''xyz'' @ [LF]) @ crlf])"
    by code_simp
  have stored: "parse_part (example_header @ blank_line @ (''xyz'' @ [LF]) @ crlf)
                  = Stored (ascii ''file'') (FileField (ascii ''a.mp3'') ''xyz'')"
    by code_simp
  have step: "foldl parse_step (Map.empty, [])
                [example_header @ blank_line @ (''xyz'' @ [LF]) @ crlf]
                = ([ascii ''file'' \<mapsto> FileField (ascii ''a.mp3'') ''xyz''], [])"
    using parse_step_Stored [OF stored, of "(Map.empty, [])"] by simp
  have "parse_multipart_form_data
      (multipart_body (''--'' @ ''B'') []
         [example_header @ blank_line @ (''xyz'' @ [LF]) @ crlf] (''--'' @ crlf)) example_type
      = Inr ([ascii ''file'' \<mapsto> FileField (ascii ''a.mp3'') ''xyz''], [])"
    using decode_framed [OF example_boundary example_encode cl example_closing]
    by (simp only: step)
  then show ?thesis
    by (simp only: body) simp
qed

subsection \<open>C6: one entry for each well-formed part, at most\<close>

text \<open>
  C6. For a body made of \<open>K\<close> parts between delimiters, the decoder returns a mapping
  with at most \<open>K\<close> entries. Every well-formed part has its entry: its name is a key
  of the mapping. The keys are exactly the names that the parts store, each of them the
  name that the header match of some part gives; when all \<open>K\<close> parts are well-formed,
  the keys are exactly their names and nothing is printed. When no part stores an
  entry, the result is the empty mapping, returned like any other.
\<close>

theorem entries_bounded:
  assumes "re_search boundary_match_at content_type = Some boundary"
    and "utf8_encode boundary = Some b"
    and "list_all (clean (''--'' @ b)) (preamble # parts)"
    and "split_once (''--'' @ b) closing = None"
  shows "\<exists>flds printed.
           parse_multipart_form_data (multipart_body (''--'' @ b) preamble parts closing) content_type
             = Inr (flds, printed)
           \<and> finite (dom flds) \<and> card (dom flds) \<le> length parts
           \<and> (\<forall>p\<in>set parts. \<forall>n v. well_formed_part p n v \<longrightarrow> n \<in> dom flds)
           \<and> ((\<forall>p\<in>set parts. \<exists>n v. well_formed_part p n v)
                \<longrightarrow> dom flds = {n. \<exists>p\<in>set parts. \<exists>v. well_formed_part p n v} \<and> printed = [])
           \<and> dom flds = {n. \<exists>p\<in>set parts. \<exists>v. parse_part p = Stored n v}
           \<and> (\<forall>n\<in>dom flds. \<exists>p\<in>set parts. part_name p = Some n)
           \<and> ((\<forall>p\<in>set parts. \<not> stores (parse_part p)) \<longrightarrow> flds = Map.empty)"
proof -
  define st where "st = foldl parse_step (Map.empty, []) parts"
  have dec: "parse_multipart_form_data (multipart_body (''--'' @ b) preamble parts closing)
               content_type = Inr (fst st, snd st)"
    using decode_framed [OF assms] by (simp add: st_def)
  have fin: "finite (dom (fst st))"
    unfolding st_def by (rule foldl_parse_step_finite) simp
  have card: "card (dom (fst st)) \<le> length parts"
    using foldl_parse_step_card [of "(Map.empty, [])" parts] by (simp add: st_def)
  have dom: "dom (fst st) = {n. \<exists>p\<in>set parts. \<exists>v. parse_part p = Stored n v}"
    using foldl_parse_step_dom [of "(Map.empty, [])" parts] by (simp add: st_def)
  have entry: "\<forall>p\<in>set parts. \<forall>n v. well_formed_part p n v \<longrightarrow> n \<in> dom (fst st)"
    unfolding dom using well_formed_part_stored by blast
  have exact: "(\<forall>p\<in>set parts. \<exists>n v. well_formed_part p n v)
       \<longrightarrow> dom (fst st) = {n. \<exists>p\<in>set parts. \<exists>v. well_formed_part p n v} \<and> snd st = []"
  proof
    assume all: "\<forall>p\<in>set parts. \<exists>n v. well_formed_part p n v"
    have "stores (parse_part p)" if "p \<in> set parts" for p
    proof -
      from all that obtain n v where "well_formed_part p n v"
        by blast
      then show ?thesis
        by (simp add: well_formed_part_stored)
    qed
    then have "\<forall>p\<in>set parts. stores (parse_part p)"
      by blast
    then have "snd st = []"
      using foldl_parse_step_no_error [of parts "(Map.empty, [])"] by (simp add: st_def)
    moreover have "dom (fst st) = {n. \<exists>p\<in>set parts. \<exists>v. well_formed_part p n v}"
    proof (intro set_eqI iffI)
      fix n
      assume "n \<in> dom (fst st)"
      then obtain p v where p: "p \<in> set parts" and stored: "parse_part p = Stored n v"
        unfolding dom by blast
      from all p obtain n' v' where wf: "well_formed_part p n' v'"
        by blast
      with stored have "n' = n"
        using well_formed_part_stored [OF wf] by simp
      with wf p show "n \<in> {n. \<exists>p\<in>set parts. \<exists>v. well_formed_part p n v}"
        by blast
    next
      fix n
      assume "n \<in> {n. \<exists>p\<in>set parts. \<exists>v. well_formed_part p n v}"
      with entry show "n \<in> dom (fst st)"
        by blast
    qed
    ultimately show "dom (fst st) = {n. \<exists>p\<in>set parts. \<exists>v. well_formed_part p n v} \<and> snd st = []"
      by simp
  qed
  have names: "\<forall>n\<in>dom (fst st). \<exists>p\<in>set parts. part_name p = Some n"
    unfolding dom by (auto dest: parse_part_name)
  have empty: "(\<forall>p\<in>set parts. \<not> stores (parse_part p)) \<longrightarrow> fst st = Map.empty"
  proof
    assume "\<forall>p\<in>set parts. \<not> stores (parse_part p)"
    then have "dom (fst st) = {}"
      unfolding dom by auto
    then show "fst st = Map.empty"
      by simp
  qed
  from dec fin card entry exact dom names empty show ?thesis
    by blast
qed

theorem entries_bounded_witness:
  "re_search boundary_match_at example_type = Some (ascii ''B'')
   \<and> utf8_encode (ascii ''B'') = Some ''B''
   \<and> list_all (clean (''--'' @ ''B''))
        ([] # [example_note_part, example_file_part, example_second_note])
   \<and> split_once (''--'' @ ''B'') (''--'' @ crlf) = None
   \<and> well_formed_part example_note_part (ascii ''note'') (Text (ascii ''hi''))
   \<and> well_formed_part example_file_part (ascii ''file'') (FileField (ascii ''a.mp3'') ''xyz'')
   \<and> well_formed_part example_second_note (ascii ''note'') (Text (ascii ''yo''))
   \<and> (\<exists>flds printed.
         parse_multipart_form_data
           (multipart_body (''--'' @ ''B'') []
              [example_note_part, example_file_part, example_second_note] (''--'' @ crlf))
           example_type = Inr (flds, printed)
         \<and> dom flds = {ascii ''note'', ascii ''file''}
         \<and> card (dom flds) \<le> 3
         \<and> printed = [])"
proof -
  have cl: "list_all (clean (''--'' @ ''B''))
              ([] # [example_note_part, example_file_part, example_second_note])"
    by code_simp
  let ?parts = "[example_note_part, example_file_part, example_second_note]"
  have all: "\<forall>p\<in>set ?parts. \<exists>n v. well_formed_part p n v"
    using example_note_well_formed example_file_well_formed example_second_well_formed
    by auto
  have names: "{n. \<exists>p\<in>set ?parts. \<exists>v. well_formed_part p n v} = {ascii ''note'', ascii ''file''}"
  proof (intro set_eqI iffI)
    fix n
    assume "n \<in> {n. \<exists>p\<in>set ?parts. \<exists>v. well_formed_part p n v}"
    then obtain p v where "p \<in> set ?parts" and "well_formed_part p n v"
      by blast
    then have "parse_part p = Stored n v" and "p \<in> set ?parts"
      by (simp_all add: well_formed_part_stored)
    then show "n \<in> {ascii ''note'', ascii ''file''}"
      using example_note_stored example_file_stored example_second_stored by auto
  next
    fix n
    assume "n \<in> {ascii ''note'', ascii ''file''}"
    then show "n \<in> {n. \<exists>p\<in>set ?parts. \<exists>v. well_formed_part p n v}"
      using example_note_well_formed example_file_well_formed by auto
  qed
  from entries_bounded [OF example_boundary example_encode cl example_closing]
  obtain flds printed where dec: "parse_multipart_form_data
        (multipart_body (''--'' @ ''B'') [] ?parts (''--'' @ crlf)) example_type
        = Inr (flds, printed)"
    and card: "card (dom flds) \<le> length ?parts"
    and exact: "(\<forall>p\<in>set ?parts. \<exists>n v. well_formed_part p n v)
       \<longrightarrow> dom flds = {n. \<exists>p\<in>set ?parts. \<exists>v. well_formed_part p n v} \<and> printed = []"
    by blast
  from exact all names have "dom flds = {ascii ''note'', ascii ''file''}" and "printed = []"
    by simp_all
  moreover from card have "card (dom flds) \<le> 3"
    by simp
  ultimately have "\<exists>flds printed.
         parse_multipart_form_data
           (multipart_body (''--'' @ ''B'') [] ?parts (''--'' @ crlf)) example_type
           = Inr (flds, printed)
         \<and> dom flds = {ascii ''note'', ascii ''file''}
         \<and> card (dom flds) \<le> 3
         \<and> printed = []"
    using dec by blast
  with example_boundary example_encode cl example_closing example_note_well_formed
    example_file_well_formed example_second_well_formed
  show ?thesis
    by (intro conjI)
qed

subsection \<open>C7: the last stored part with a name wins\<close>




subsection \<open>C8: no decoded value ends in CR LF\<close>

text \<open>
  C8. Whatever the body and the content type are, a value of the returned mapping does
  not end in the sequence CR LF: neither the content bytes of a file value nor a plain
  string.
\<close>

theorem no_trailing_crlf:
  assumes "parse_multipart_form_data body content_type = Inr (flds, printed)"
    and "flds n = Some v"
  shows "(\<forall>f c. v = FileField f c \<longrightarrow> \<not> suffix [CR, LF] c)
         \<and> (\<forall>s. v = Text s \<longrightarrow> \<not> suffix [13, 10] s)"
proof -
  obtain parts where "foldl parse_step (Map.empty, []) parts = (flds, printed)"
    using decode_result [OF assms(1)] by blast
  then have "fst (foldl parse_step (Map.empty, []) parts) n = Some v"
    using assms(2) by simp
  then have "clean_value v"
    by (rule foldl_parse_step_invariant [where P = clean_value, rotated 2])
      (simp_all add: parse_part_clean_value)
  then show ?thesis
    by (auto simp: clean_value_def)
qed

theorem no_trailing_crlf_witness:
  "parse_multipart_form_data
     (multipart_body (''--'' @ ''B'') [] [example_file_part] (''--'' @ crlf)) example_type
     = Inr ([ascii ''file'' \<mapsto> FileField (ascii ''a.mp3'') ''xyz''], [])
   \<and> [ascii ''file'' \<mapsto> FileField (ascii ''a.mp3'') ''xyz''] (ascii ''file'')
       = Some (FileField (ascii ''a.mp3'') ''xyz'')
   \<and> \<not> suffix [CR, LF] ''xyz''"
proof -
  have cl: "list_all (clean (''--'' @ ''B'')) ([] # [example_file_part])"
    by code_simp
  have dec: "parse_multipart_form_data
      (multipart_body (''--'' @ ''B'') [] [example_file_part] (''--'' @ crlf)) example_type
      = Inr ([ascii ''file'' \<mapsto> FileField (ascii ''a.mp3'') ''xyz''], [])"
    using decode_framed [OF example_boundary example_encode cl example_closing]
    by (simp add: parse_step_Stored [OF example_file_stored])
  have look: "[ascii ''file'' \<mapsto> FileField (ascii ''a.mp3'') ''xyz''] (ascii ''file'')
                = Some (FileField (ascii ''a.mp3'') ''xyz'')"
    by simp
  from no_trailing_crlf [OF dec look] have "\<not> suffix [CR, LF] ''xyz''"
    by blast
  with dec look show ?thesis
    by (intro conjI)
qed

subsection \<open>C9: every trailing CR and LF byte is removed\<close>

text \<open>
  C9. Let a part end in a run \<open>nls\<close> of CR and LF bytes, in any order and number,
  behind a payload that does not itself end in CR or LF. The removal strips the whole
  run: the part decodes as it would without the run, a file value holds exactly the
  payload and a plain string is the decoding of exactly the payload.
\<close>

theorem trailing_newlines_all_stripped:
  assumes "clean blank_line hdr"
    and "\<forall>c\<in>set nls. c = CR \<or> c = LF"
    and "payload = [] \<or> (last payload \<noteq> CR \<and> last payload \<noteq> LF)"
  shows "rstrip_crlf (payload @ nls) = payload
         \<and> parse_part (hdr @ blank_line @ payload @ nls) = parse_part (hdr @ blank_line @ payload)
         \<and> (\<forall>n f c. parse_part (hdr @ blank_line @ payload @ nls) = Stored n (FileField f c)
               \<longrightarrow> c = payload)
         \<and> (\<forall>n s. parse_part (hdr @ blank_line @ payload @ nls) = Stored n (Text s)
               \<longrightarrow> utf8_decode payload = Some s)"
proof -
  have strip: "rstrip_crlf (payload @ nls) = payload"
    using assms(2,3) by (rule rstrip_crlf_strips)
  have same: "parse_part (hdr @ blank_line @ payload @ nls) = parse_part (hdr @ blank_line @ payload)"
    using assms(1) by (rule parse_part_same_payload) (simp add: rstrip_crlf_append [OF assms(2)])
  have cut: "split_once blank_line (hdr @ blank_line @ payload @ nls) = Some (hdr, payload @ nls)"
    using assms(1) by (rule parse_part_split)
  have content: "c = payload"
    if "parse_part (hdr @ blank_line @ payload @ nls) = Stored n (FileField f c)" for n f c
    using that cut strip by (auto elim!: parse_part_cases)
  have decoded: "utf8_decode payload = Some s"
    if "parse_part (hdr @ blank_line @ payload @ nls) = Stored n (Text s)" for n s
    using that cut strip by (auto elim!: parse_part_cases)
  from strip same content decoded show ?thesis
    by blast
qed

theorem trailing_newlines_all_stripped_witness:
  "clean blank_line example_header
   \<and> set [LF, CR, CR, LF, LF] \<subseteq> {CR, LF}
   \<and> last ''xyz'' \<noteq> CR \<and> last ''xyz'' \<noteq> LF
   \<and> rstrip_crlf (''xyz'' @ [LF, CR, CR, LF, LF]) = ''xyz''
   \<and> parse_part (example_header @ blank_line @ ''xyz'' @ [LF, CR, CR, LF, LF])
       = parse_part (example_header @ blank_line @ ''xyz'')
   \<and> parse_part (example_header @ blank_line @ ''xyz'' @ [LF, CR, CR, LF, LF])
       = Stored (ascii ''file'') (FileField (ascii ''a.mp3'') ''xyz'')"
proof -
  have nls: "\<forall>c\<in>set [LF, CR, CR, LF, LF]. c = CR \<or> c = LF"
    by simp
  have sub: "set [LF, CR, CR, LF, LF] \<subseteq> {CR, LF}"
    by simp
  have l1: "last ''xyz'' \<noteq> CR" and l2: "last ''xyz'' \<noteq> LF"
    by (simp_all add: CR_def LF_def)
  then have pl: "''xyz'' = [] \<or> (last ''xyz'' \<noteq> CR \<and> last ''xyz'' \<noteq> LF)"
    by simp
  note t = trailing_newlines_all_stripped [OF example_header_clean nls pl]
  have stored: "parse_part (example_header @ blank_line @ ''xyz'')
                  = Stored (ascii ''file'') (FileField (ascii ''a.mp3'') ''xyz'')"
    by code_simp
  from t have a: "rstrip_crlf (''xyz'' @ [LF, CR, CR, LF, LF]) = ''xyz''"
    and b: "parse_part (example_header @ blank_line @ ''xyz'' @ [LF, CR, CR, LF, LF])
              = parse_part (example_header @ blank_line @ ''xyz'')"
    by blast+
  from b stored have c: "parse_part (example_header @ blank_line @ ''xyz'' @ [LF, CR, CR, LF, LF])
      = Stored (ascii ''file'') (FileField (ascii ''a.mp3'') ''xyz'')"
    by simp
  from example_header_clean sub l1 l2 a b c show ?thesis
    by (intro conjI)
qed

subsection \<open>C10: an empty name, an empty filename\<close>

text \<open>
  C10 as stated fails for a part with an empty name whose header block holds a second
  entry behind it: the search goes on through the header block and the part is stored
  under the name found there. Here the header block holds \<open>name=""\<close> and, on the next
  line, \<open>name="z"\<close>; the payload \<open>abc\<close> is stored under \<open>z\<close>.
\<close>

theorem empty_name_counterexample:
  "parse_multipart_form_data
     (''--B'' @ example_two_names_header @ blank_line @ ''abc'' @ crlf @ ''--B--'' @ crlf)
     example_type
     = Inr ([ascii ''z'' \<mapsto> Text (ascii ''abc'')], [])"
proof -
  have body: "''--B'' @ example_two_names_header @ blank_line @ ''abc'' @ crlf @ ''--B--'' @ crlf
      = multipart_body (''--'' @ ''B'') []
          [example_two_names_header @ blank_line @ ''abc'' @ crlf] (''--'' @ crlf)"
    by (simp add: multipart_body_def)
  have cl: "list_all (clean (''--'' @ ''B''))
              ([] # [example_two_names_header @ blank_line @ ''abc'' @ crlf])"
    by code_simp
  have step: "foldl parse_step (Map.empty, [])
                [example_two_names_header @ blank_line @ ''abc'' @ crlf]
                = ([ascii ''z'' \<mapsto> Text (ascii ''abc'')], [])"
    using parse_step_Stored [OF example_two_names_stored, of "(Map.empty, [])"] by simp
  have "parse_multipart_form_data
      (multipart_body (''--'' @ ''B'') []
         [example_two_names_header @ blank_line @ ''abc'' @ crlf] (''--'' @ crlf)) example_type
      = Inr ([ascii ''z'' \<mapsto> Text (ascii ''abc'')], [])"
    using decode_framed [OF example_boundary example_encode cl example_closing]
    by (simp only: step)
  then show ?thesis
    by (simp only: body)
qed

text \<open>
  C10, amended. Take a part whose header block decodes and whose first possible place
  for the pattern is a \<open>Content-Disposition: form-data; name=\<close> entry. When the name is
  empty (\<open>name=""\<close>) and the pattern matches nowhere behind it, the part is skipped
  without a word: the loop leaves the mapping and the printed errors as they were, and a
  body of this part alone decodes to the empty mapping. When the name \<open>n\<close> is not empty
  and the filename is (\<open>filename=""\<close>), the part goes the way of a part with no
  filename: when the payload is valid UTF-8 the loop stores its decoding under \<open>n\<close> as
  a plain string, never as a file value, and a body of this part alone decodes to the
  mapping with that one entry; when it is not, the loop prints the decode error and
  stores nothing.
\<close>

theorem empty_name_or_filename:
  assumes "re_search boundary_match_at content_type = Some boundary"
    and "utf8_encode boundary = Some b"
    and "list_all (clean (''--'' @ b)) [preamble, hdr @ blank_line @ part_body]"
    and "split_once (''--'' @ b) closing = None"
    and "clean blank_line hdr"
    and "utf8_decode hdr = Some hs"
    and "clean name_literal pre"
  shows "(\<forall>post.
            hs = pre @ name_literal @ 34 # post \<and> re_search disposition_match_at post = None
            \<longrightarrow> parse_step st (hdr @ blank_line @ part_body) = st
                \<and> parse_multipart_form_data
                    (multipart_body (''--'' @ b) preamble [hdr @ blank_line @ part_body] closing)
                    content_type
                  = Inr (Map.empty, []))
         \<and> (\<forall>n post.
              hs = pre @ name_literal @ n @ 34 # filename_literal @ 34 # post
              \<and> n \<noteq> [] \<and> 34 \<notin> set n
              \<longrightarrow> parse_step st (hdr @ blank_line @ part_body)
                    = (case utf8_decode (rstrip_crlf part_body) of
                         None \<Rightarrow> (fst st, snd st @ [UnicodeDecodeError])
                       | Some s \<Rightarrow> ((fst st)(n \<mapsto> Text s), snd st))
                  \<and> parse_multipart_form_data
                      (multipart_body (''--'' @ b) preamble [hdr @ blank_line @ part_body] closing)
                      content_type
                    = Inr (case utf8_decode (rstrip_crlf part_body) of
                             None \<Rightarrow> (Map.empty, [UnicodeDecodeError])
                           | Some s \<Rightarrow> ([n \<mapsto> Text s], [])))"
proof -
  have whole: "parse_multipart_form_data
        (multipart_body (''--'' @ b) preamble [hdr @ blank_line @ part_body] closing) content_type
      = Inr (parse_step (Map.empty, []) (hdr @ blank_line @ part_body))"
    using decode_framed [OF assms(1,2) _ assms(4), of preamble "[hdr @ blank_line @ part_body]"]
      assms(3)
    by simp
  have skipped: "parse_step s0 (hdr @ blank_line @ part_body) = s0"
    if "hs = pre @ name_literal @ 34 # post" and "re_search disposition_match_at post = None"
    for post s0
  proof -
    have "re_search disposition_match_at hs = None"
      using re_search_first_empty_name [OF assms(7), of post] that by simp
    then have "parse_part (hdr @ blank_line @ part_body) = Skipped"
      by (rule parse_part_unmatched [OF assms(5,6)])
    then show ?thesis
      by (rule parse_step_Skipped)
  qed
  have plain: "parse_step s0 (hdr @ blank_line @ part_body)
                = (case utf8_decode (rstrip_crlf part_body) of
                     None \<Rightarrow> (fst s0, snd s0 @ [UnicodeDecodeError])
                   | Some s \<Rightarrow> ((fst s0)(n \<mapsto> Text s), snd s0))"
    if "hs = pre @ name_literal @ n @ 34 # filename_literal @ 34 # post"
      and "n \<noteq> []" and "34 \<notin> set n"
    for n post s0
  proof -
    have "re_search disposition_match_at hs = Some (n, None)"
      using re_search_first_named [OF assms(7) that(2,3), of "filename_literal @ 34 # post"]
      by (simp add: that(1) filename_group_empty)
    then have "parse_part (hdr @ blank_line @ part_body) = text_field n part_body"
      by (rule parse_part_text [OF assms(5,6)])
    then show ?thesis
      by (cases "utf8_decode (rstrip_crlf part_body)")
        (simp_all add: text_field_def parse_step_Stored parse_step_Failed)
  qed
  show ?thesis
  proof (intro conjI allI impI)
    fix post
    assume "hs = pre @ name_literal @ 34 # post \<and> re_search disposition_match_at post = None"
    then show "parse_step st (hdr @ blank_line @ part_body) = st"
      using skipped [of post st] by simp
  next
    fix post
    assume "hs = pre @ name_literal @ 34 # post \<and> re_search disposition_match_at post = None"
    then show "parse_multipart_form_data
        (multipart_body (''--'' @ b) preamble [hdr @ blank_line @ part_body] closing) content_type
        = Inr (Map.empty, [])"
      using skipped [of post "(Map.empty, [])"] whole by simp
  next
    fix n post
    assume "hs = pre @ name_literal @ n @ 34 # filename_literal @ 34 # post
            \<and> n \<noteq> [] \<and> 34 \<notin> set n"
    then show "parse_step st (hdr @ blank_line @ part_body)
                 = (case utf8_decode (rstrip_crlf part_body) of
                      None \<Rightarrow> (fst st, snd st @ [UnicodeDecodeError])
                    | Some s \<Rightarrow> ((fst st)(n \<mapsto> Text s), snd st))"
      using plain [of n post st] by simp
  next
    fix n post
    assume "hs = pre @ name_literal @ n @ 34 # filename_literal @ 34 # post
            \<and> n \<noteq> [] \<and> 34 \<notin> set n"
    then have "parse_step (Map.empty, []) (hdr @ blank_line @ part_body)
                 = (case utf8_decode (rstrip_crlf part_body) of
                      None \<Rightarrow> (Map.empty, [UnicodeDecodeError])
                    | Some s \<Rightarrow> ([n \<mapsto> Text s], []))"
      using plain [of n post "(Map.empty, [])"] by (simp split: option.splits)
    then show "parse_multipart_form_data
        (multipart_body (''--'' @ b) preamble [hdr @ blank_line @ part_body] closing) content_type
        = Inr (case utf8_decode (rstrip_crlf part_body) of
                 None \<Rightarrow> (Map.empty, [UnicodeDecodeError])
               | Some s \<Rightarrow> ([n \<mapsto> Text s], []))"
      using whole by simp
  qed
qed

theorem empty_name_or_filename_witness:
  "re_search boundary_match_at example_type = Some (ascii ''B'')
   \<and> utf8_encode (ascii ''B'') = Some ''B''
   \<and> split_once (''--'' @ ''B'') (''--'' @ crlf) = None
   \<and> clean name_literal [13, 10]
   \<and> list_all (clean (''--'' @ ''B''))
        [[], example_empty_name_header @ blank_line @ ''lost'' @ crlf]
   \<and> clean blank_line example_empty_name_header
   \<and> utf8_decode example_empty_name_header = Some ([13, 10] @ name_literal @ 34 # [])
   \<and> re_search disposition_match_at [] = None
   \<and> parse_step ([ascii ''note'' \<mapsto> Text (ascii ''hi'')], [])
        (example_empty_name_header @ blank_line @ ''lost'' @ crlf)
       = ([ascii ''note'' \<mapsto> Text (ascii ''hi'')], [])
   \<and> parse_multipart_form_data
        (multipart_body (''--'' @ ''B'') []
           [example_empty_name_header @ blank_line @ ''lost'' @ crlf] (''--'' @ crlf))
        example_type
       = Inr (Map.empty, [])
   \<and> list_all (clean (''--'' @ ''B''))
        [[], example_empty_filename_header @ blank_line @ ''abc'' @ crlf]
   \<and> clean blank_line example_empty_filename_header
   \<and> utf8_decode example_empty_filename_header
       = Some ([13, 10] @ name_literal @ ascii ''file'' @ 34 # filename_literal @ 34 #
               ([13, 10] @ ascii ''Content-Type: application/octet-stream''))
   \<and> ascii ''file'' \<noteq> [] \<and> 34 \<notin> set (ascii ''file'')
   \<and> utf8_decode (rstrip_crlf (''abc'' @ crlf)) = Some (ascii ''abc'')
   \<and> parse_step ([ascii ''note'' \<mapsto> Text (ascii ''hi'')], [])
        (example_empty_filename_header @ blank_line @ ''abc'' @ crlf)
       = ([ascii ''note'' \<mapsto> Text (ascii ''hi''), ascii ''file'' \<mapsto> Text (ascii ''abc'')], [])
   \<and> parse_multipart_form_data
        (multipart_body (''--'' @ ''B'') []
           [example_empty_filename_header @ blank_line @ ''abc'' @ crlf] (''--'' @ crlf))
        example_type
       = Inr ([ascii ''file'' \<mapsto> Text (ascii ''abc'')], [])"
proof -
  let ?st = "([ascii ''note'' \<mapsto> Text (ascii ''hi'')], []) :: (str \<rightharpoonup> field) \<times> exn list"
  have none: "re_search disposition_match_at [] = None"
    by code_simp
  have dec: "utf8_decode (rstrip_crlf (''abc'' @ crlf)) = Some (ascii ''abc'')"
    by code_simp
  have cl1: "list_all (clean (''--'' @ ''B''))
               [[], example_empty_name_header @ blank_line @ ''lost'' @ crlf]"
    by code_simp
  have cl2: "list_all (clean (''--'' @ ''B''))
               [[], example_empty_filename_header @ blank_line @ ''abc'' @ crlf]"
    by code_simp
  note t1 = empty_name_or_filename [OF example_boundary example_encode cl1 example_closing
      example_empty_name_clean example_empty_name_decoded example_pre_clean, of ?st]
  note t2 = empty_name_or_filename [OF example_boundary example_encode cl2 example_closing
      example_empty_filename_clean example_empty_filename_decoded example_pre_clean, of ?st]
  from t1 none
  have a: "parse_step ?st (example_empty_name_header @ blank_line @ ''lost'' @ crlf) = ?st"
    and a': "parse_multipart_form_data
        (multipart_body (''--'' @ ''B'') []
           [example_empty_name_header @ blank_line @ ''lost'' @ crlf] (''--'' @ crlf))
        example_type
       = Inr (Map.empty, [])"
    by blast+
  from t2 example_names(3,4)
  have "parse_step ?st (example_empty_filename_header @ blank_line @ ''abc'' @ crlf)
          = (case utf8_decode (rstrip_crlf (''abc'' @ crlf)) of
               None \<Rightarrow> (fst ?st, snd ?st @ [UnicodeDecodeError])
             | Some s \<Rightarrow> ((fst ?st)(ascii ''file'' \<mapsto> Text s), snd ?st))"
    and "parse_multipart_form_data
        (multipart_body (''--'' @ ''B'') []
           [example_empty_filename_header @ blank_line @ ''abc'' @ crlf] (''--'' @ crlf))
        example_type
       = Inr (case utf8_decode (rstrip_crlf (''abc'' @ crlf)) of
                None \<Rightarrow> (Map.empty, [UnicodeDecodeError])
              | Some s \<Rightarrow> ([ascii ''file'' \<mapsto> Text s], []))"
    by blast+
  then have b: "parse_step ?st (example_empty_filename_header @ blank_line @ ''abc'' @ crlf)
       = ([ascii ''note'' \<mapsto> Text (ascii ''hi''), ascii ''file'' \<mapsto> Text (ascii ''abc'')], [])"
    and b': "parse_multipart_form_data
        (multipart_body (''--'' @ ''B'') []
           [example_empty_filename_header @ blank_line @ ''abc'' @ crlf] (''--'' @ crlf))
        example_type
       = Inr ([ascii ''file'' \<mapsto> Text (ascii ''abc'')], [])"
    by (simp_all only: dec option.case fst_conv snd_conv)
  from example_boundary example_encode example_closing example_pre_clean
    cl1 example_empty_name_clean example_empty_name_decoded none a a'
    cl2 example_empty_filename_clean example_empty_filename_decoded example_names(3,4) dec b b'
  show ?thesis
    by (intro conjI)
qed

end
